theory Spec2Isabelle
  imports Main
begin

section \<open>JavaScript values and completions\<close>

text \<open>
  The scripts are JavaScript. The values that the modelled functions read or return are
  the primitives \<open>undefined\<close>, \<open>null\<close>, booleans, integer-valued numbers and \<open>NaN\<close>,
  strings, and references to heap objects. Fractional numbers, symbols, functions and
  objects with accessors are outside the model.

  Every function of the source that can raise is modelled with a completion: it either
  returns a value or throws. For an \<open>async\<close> function, \<open>Returned v\<close> is a promise
  resolved with \<open>v\<close> and \<open>Thrown\<close> a rejected promise. Every awaited remote call is
  taken to settle. A thrown value is taken to be an error object, so that the logging in
  a \<open>catch\<close> block, which reads \<open>error.message\<close>, does not itself raise.
\<close>

datatype jsprim = PUndefined | PNull | PBool bool | PInt int | PNaN

datatype jsval = JPrim jsprim | JStr string | JRef nat

datatype 'a completion = Returned 'a | Thrown

abbreviation JUndefined :: jsval where
  "JUndefined \<equiv> JPrim PUndefined"

text \<open>JavaScript truthiness (\<open>!x\<close> is its negation).\<close>

fun truthy :: "jsval \<Rightarrow> bool" where
  "truthy (JPrim PUndefined) = False"
| "truthy (JPrim PNull) = False"
| "truthy (JPrim (PBool b)) = b"
| "truthy (JPrim (PInt n)) = (n \<noteq> 0)"
| "truthy (JPrim PNaN) = False"
| "truthy (JStr s) = (s \<noteq> [])"
| "truthy (JRef a) = True"

section \<open>The two storage backends and the in-memory cache\<close>

type_synonym key = string

text \<open>
  Every call that leaves the bridge is recorded in order: the calls to the browser's
  \<open>localStorage\<close>, the messages sent to the platform with \<open>vkBridge.send\<close>, and the
  timer waits (with the delay in milliseconds handed to \<open>setTimeout\<close>).
\<close>

datatype event =
    LocalGet key
  | LocalSet key string
  | LocalRemove key
  | SendInit
  | SendStorageGet key
  | SendStorageSet key string
  | Sleep nat

text \<open>
  The state of the page: the contents of \<open>localStorage\<close>, the module-level
  \<open>vkStorageCache\<close>, whether \<open>window.VKBridgeWrapper\<close> exists, its \<open>initialized\<close>
  flag, the loader's own \<open>isInitialized\<close> flag, the platform's key/value storage, and
  the record of calls.
\<close>

record world =
  lstore :: "key \<rightharpoonup> string"
  vkStorageCache :: "key \<rightharpoonup> string"
  wrapper_present :: bool
  initialized :: bool
  isInitialized :: bool
  vk_store :: "key \<rightharpoonup> string"
  trace :: "event list"

text \<open>
  The faults of the environment during one call: whether the global \<open>vkBridge\<close> is
  defined, which platform messages are rejected, and whether \<open>localStorage.getItem\<close>,
  \<open>localStorage.setItem\<close> (on an exceeded quota) or \<open>localStorage.removeItem\<close>
  throws.
\<close>

record env =
  vkBridge_defined :: bool
  init_rejects :: bool
  storageGet_rejects :: bool
  storageSet_rejects :: bool
  getItem_throws :: bool
  setItem_throws :: bool
  removeItem_throws :: bool

definition log_event :: "event \<Rightarrow> world \<Rightarrow> world" where
  "log_event ev w = w\<lparr>trace := trace w @ [ev]\<rparr>"

subsection \<open>\<open>originalLocalStorage\<close>\<close>

definition getItem :: "env \<Rightarrow> key \<Rightarrow> world \<Rightarrow> string option completion \<times> world" where
  "getItem e k w =
     (if getItem_throws e then (Thrown, log_event (LocalGet k) w)
      else (Returned (lstore w k), log_event (LocalGet k) w))"

definition setItem :: "env \<Rightarrow> key \<Rightarrow> string \<Rightarrow> world \<Rightarrow> unit completion \<times> world" where
  "setItem e k v w =
     (if setItem_throws e then (Thrown, log_event (LocalSet k v) w)
      else (Returned (), log_event (LocalSet k v) (w\<lparr>lstore := (lstore w)(k \<mapsto> v)\<rparr>)))"

definition removeItem :: "env \<Rightarrow> key \<Rightarrow> world \<Rightarrow> unit completion \<times> world" where
  "removeItem e k w =
     (if removeItem_throws e then (Thrown, log_event (LocalRemove k) w)
      else (Returned (), log_event (LocalRemove k) (w\<lparr>lstore := (lstore w)(k := None)\<rparr>)))"

subsection \<open>\<open>safeStorage\<close> (scripts/custom.js)\<close>

text \<open>
  The repository's other wrapper around the same storage guards each call on its own:
  \<open>safeStorage.getItem\<close> returns \<open>null\<close> when the read throws.
\<close>

definition safeStorage_getItem ::
  "env \<Rightarrow> key \<Rightarrow> world \<Rightarrow> string option completion \<times> world" where
  "safeStorage_getItem e k w =
     (case getItem e k w of
        (Thrown, w1) \<Rightarrow> (Returned None, w1)
      | (Returned r, w1) \<Rightarrow> (Returned r, w1))"

subsection \<open>The platform behind \<open>vkBridge.send\<close>\<close>

text \<open>
  The platform is not part of the repository. A message is recorded when \<open>vkBridge\<close>
  is defined (otherwise evaluating \<open>vkBridge.send\<close> raises a ReferenceError and nothing
  is sent), and it is then either rejected or answered. \<open>VKWebAppStorageGet\<close> for one
  key answers with the stored value, or with an empty \<open>keys\<close> list when the platform
  holds nothing for the key; \<open>VKWebAppStorageSet\<close> stores the value.
\<close>

definition send_VKWebAppInit :: "env \<Rightarrow> world \<Rightarrow> unit completion \<times> world" where
  "send_VKWebAppInit e w =
     (if \<not> vkBridge_defined e then (Thrown, w)
      else if init_rejects e then (Thrown, log_event SendInit w)
      else (Returned (), log_event SendInit w))"

definition send_VKWebAppStorageGet ::
  "env \<Rightarrow> key \<Rightarrow> world \<Rightarrow> string option completion \<times> world" where
  "send_VKWebAppStorageGet e k w =
     (if \<not> vkBridge_defined e then (Thrown, w)
      else if storageGet_rejects e then (Thrown, log_event (SendStorageGet k) w)
      else (Returned (vk_store w k), log_event (SendStorageGet k) w))"

definition send_VKWebAppStorageSet ::
  "env \<Rightarrow> key \<Rightarrow> string \<Rightarrow> world \<Rightarrow> unit completion \<times> world" where
  "send_VKWebAppStorageSet e k v w =
     (if \<not> vkBridge_defined e then (Thrown, w)
      else if storageSet_rejects e then (Thrown, log_event (SendStorageSet k v) w)
      else (Returned (), log_event (SendStorageSet k v) (w\<lparr>vk_store := (vk_store w)(k \<mapsto> v)\<rparr>)))"

section \<open>\<open>VKBridgeWrapper\<close> (scripts/vk-iframe-fix.js)\<close>

text \<open>
  The file holds two copies of the wrapper that differ only in their logging. Each
  method wraps its whole body in \<open>try\<close>/\<open>catch\<close>.

  \<open>init\<close> returns \<open>true\<close> at once when the flag is set, \<open>false\<close> when \<open>vkBridge\<close>
  is undefined, and otherwise sends \<open>VKWebAppInit\<close>: the flag is set when the message
  is answered, and the \<open>catch\<close> returns \<open>false\<close> when it is rejected.
\<close>

definition init :: "env \<Rightarrow> world \<Rightarrow> bool completion \<times> world" where
  "init e w =
     (if initialized w then (Returned True, w)
      else if \<not> vkBridge_defined e then (Returned False, w)
      else (case send_VKWebAppInit e w of
              (Thrown, w1) \<Rightarrow> (Returned False, w1)
            | (Returned u, w1) \<Rightarrow> (Returned True, w1\<lparr>initialized := True\<rparr>)))"

text \<open>
  The same method cut at its \<open>await\<close>: \<open>init_begin\<close> runs up to the point where the
  message has been sent and the caller is suspended (\<open>None\<close>), or settles at once
  (\<open>Some b\<close>); \<open>init_resume\<close> is the continuation that runs when the message settles,
  given whether the platform rejected that message; \<open>init_settle\<close> is the outcome of
  a call that \<open>init_begin\<close> left in either state.
\<close>

definition init_begin :: "env \<Rightarrow> world \<Rightarrow> bool option \<times> world" where
  "init_begin e w =
     (if initialized w then (Some True, w)
      else if \<not> vkBridge_defined e then (Some False, w)
      else (None, log_event SendInit w))"

definition init_resume :: "bool \<Rightarrow> world \<Rightarrow> bool \<times> world" where
  "init_resume rejected w =
     (if rejected then (False, w) else (True, w\<lparr>initialized := True\<rparr>))"

definition init_settle :: "bool option \<Rightarrow> bool \<Rightarrow> world \<Rightarrow> bool \<times> world" where
  "init_settle p rejected w =
     (case p of Some b \<Rightarrow> (b, w) | None \<Rightarrow> init_resume rejected w)"

text \<open>
  \<open>storageGet\<close> and \<open>storageSet\<close> first call \<open>init\<close> when the flag is not set, give
  up with \<open>null\<close> or \<open>false\<close> when it is still not set, and otherwise send the storage
  message. Their \<open>catch\<close> turns every exception into \<open>null\<close> or \<open>false\<close>.
\<close>

definition lazy_init :: "env \<Rightarrow> world \<Rightarrow> unit completion \<times> world" where
  "lazy_init e w =
     (if \<not> initialized w then
        (case init e w of (Thrown, w0) \<Rightarrow> (Thrown, w0) | (Returned b, w0) \<Rightarrow> (Returned (), w0))
      else (Returned (), w))"

definition storageGet :: "env \<Rightarrow> key \<Rightarrow> world \<Rightarrow> string option completion \<times> world" where
  "storageGet e k w =
     (case lazy_init e w of
        (Thrown, w0) \<Rightarrow> (Returned None, w0)
      | (Returned u, w0) \<Rightarrow>
          if \<not> initialized w0 then (Returned None, w0)
          else (case send_VKWebAppStorageGet e k w0 of
                  (Thrown, w1) \<Rightarrow> (Returned None, w1)
                | (Returned resp, w1) \<Rightarrow> (Returned resp, w1)))"

definition storageSet :: "env \<Rightarrow> key \<Rightarrow> string \<Rightarrow> world \<Rightarrow> bool completion \<times> world" where
  "storageSet e k v w =
     (case lazy_init e w of
        (Thrown, w0) \<Rightarrow> (Returned False, w0)
      | (Returned u, w0) \<Rightarrow>
          if \<not> initialized w0 then (Returned False, w0)
          else (case send_VKWebAppStorageSet e k v w0 of
                  (Thrown, w1) \<Rightarrow> (Returned False, w1)
                | (Returned u1, w1) \<Rightarrow> (Returned True, w1)))"

section \<open>The storage bridge \<open>window.gameStorage\<close> (Game Storage Loader)\<close>

definition remote_ready :: "world \<Rightarrow> bool" where
  "remote_ready w = (wrapper_present w \<and> initialized w)"

text \<open>
  \<open>enhancedGetItem\<close>. \<open>enhancedGetItem_local\<close> is the second half of the \<open>try\<close>
  block (the read of \<open>localStorage\<close> and the write of what it finds up to the
  platform), \<open>enhancedGetItem_try\<close> the whole block, and \<open>enhancedGetItem\<close> the
  function with its \<open>catch\<close>, which reads \<open>localStorage\<close> once more and returns
  what that read gives. The platform answers with strings, so a remote value is
  \<open>null\<close> (\<open>None\<close>) or a string.
\<close>

definition enhancedGetItem_local ::
  "env \<Rightarrow> key \<Rightarrow> world \<Rightarrow> string option completion \<times> world" where
  "enhancedGetItem_local e k w =
     (case getItem e k w of
        (Thrown, w1) \<Rightarrow> (Thrown, w1)
      | (Returned None, w1) \<Rightarrow> (Returned None, w1)
      | (Returned (Some localValue), w1) \<Rightarrow>
          if remote_ready w1 then
            (case storageSet e k localValue w1 of
               (Thrown, w2) \<Rightarrow> (Thrown, w2)
             | (Returned b, w2) \<Rightarrow> (Returned (Some localValue), w2))
          else (Returned (Some localValue), w1))"

definition enhancedGetItem_try ::
  "env \<Rightarrow> key \<Rightarrow> world \<Rightarrow> string option completion \<times> world" where
  "enhancedGetItem_try e k w =
     (if remote_ready w then
        (case storageGet e k w of
           (Thrown, w1) \<Rightarrow> (Thrown, w1)
         | (Returned None, w1) \<Rightarrow> enhancedGetItem_local e k w1
         | (Returned (Some vkValue), w1) \<Rightarrow>
             if vkValue \<noteq> [] then
               (let w2 = w1\<lparr>vkStorageCache := (vkStorageCache w1)(k \<mapsto> vkValue)\<rparr> in
                (case setItem e k vkValue w2 of
                   (Thrown, w3) \<Rightarrow> (Thrown, w3)
                 | (Returned u, w3) \<Rightarrow> (Returned (Some vkValue), w3)))
             else enhancedGetItem_local e k w1)
      else enhancedGetItem_local e k w)"

definition enhancedGetItem ::
  "env \<Rightarrow> key \<Rightarrow> world \<Rightarrow> string option completion \<times> world" where
  "enhancedGetItem e k w =
     (case enhancedGetItem_try e k w of
        (Thrown, w1) \<Rightarrow> getItem e k w1
      | (Returned r, w1) \<Rightarrow> (Returned r, w1))"

text \<open>
  \<open>enhancedSetItem\<close>: the \<open>try\<close> block writes to \<open>localStorage\<close> first and then, when
  the wrapper is ready, to the platform, caching the value when the wrapper reports
  success. The \<open>catch\<close> only logs. The function has no \<open>return\<close> statement, so its
  promise resolves with \<open>undefined\<close>. The value is a string, so \<open>String(value)\<close> is the
  value itself.
\<close>

definition enhancedSetItem_try ::
  "env \<Rightarrow> key \<Rightarrow> string \<Rightarrow> world \<Rightarrow> unit completion \<times> world" where
  "enhancedSetItem_try e k v w =
     (case setItem e k v w of
        (Thrown, w1) \<Rightarrow> (Thrown, w1)
      | (Returned u, w1) \<Rightarrow>
          if remote_ready w1 then
            (case storageSet e k v w1 of
               (Thrown, w2) \<Rightarrow> (Thrown, w2)
             | (Returned success, w2) \<Rightarrow>
                 if success then
                   (Returned (), w2\<lparr>vkStorageCache := (vkStorageCache w2)(k \<mapsto> v)\<rparr>)
                 else (Returned (), w2))
          else (Returned (), w1))"

definition enhancedSetItem ::
  "env \<Rightarrow> key \<Rightarrow> string \<Rightarrow> world \<Rightarrow> jsval completion \<times> world" where
  "enhancedSetItem e k v w =
     (case enhancedSetItem_try e k v w of
        (Thrown, w1) \<Rightarrow> (Returned JUndefined, w1)
      | (Returned u, w1) \<Rightarrow> (Returned JUndefined, w1))"

text \<open>
  \<open>enhancedRemoveItem\<close>: the \<open>try\<close> block removes the key from \<open>localStorage\<close>,
  then from the cache and, when the wrapper is ready, stores the empty string on the
  platform. When \<open>localStorage.removeItem\<close> throws, the rest of the block is skipped.
  The \<open>catch\<close> only logs.
\<close>

definition enhancedRemoveItem_try :: "env \<Rightarrow> key \<Rightarrow> world \<Rightarrow> unit completion \<times> world" where
  "enhancedRemoveItem_try e k w =
     (case removeItem e k w of
        (Thrown, w1) \<Rightarrow> (Thrown, w1)
      | (Returned u, w1) \<Rightarrow>
          (let w2 = w1\<lparr>vkStorageCache := (vkStorageCache w1)(k := None)\<rparr> in
           if remote_ready w2 then
             (case storageSet e k [] w2 of
                (Thrown, w3) \<Rightarrow> (Thrown, w3)
              | (Returned b, w3) \<Rightarrow> (Returned (), w3))
           else (Returned (), w2)))"

definition enhancedRemoveItem :: "env \<Rightarrow> key \<Rightarrow> world \<Rightarrow> jsval completion \<times> world" where
  "enhancedRemoveItem e k w =
     (case enhancedRemoveItem_try e k w of
        (Thrown, w1) \<Rightarrow> (Returned JUndefined, w1)
      | (Returned u, w1) \<Rightarrow> (Returned JUndefined, w1))"

subsection \<open>Start-up of the loader\<close>

text \<open>
  \<open>initialize\<close> runs once (guarded by \<open>isInitialized\<close>). When the wrapper exists it
  polls the wrapper's flag: while the flag is not set and fewer than \<open>maxAttempts = 50\<close>
  waits have been made, it waits 100 ms and counts the attempt. The wrapper's own
  handshake runs meanwhile, so what the loop reads is given by \<open>ready\<close>: \<open>ready n\<close>
  says whether the handshake has completed once \<open>n\<close> waits have elapsed. \<open>poll\<close> is the
  loop, returning the number of waits made. The proxy and the start-screen observer that
  \<open>initialize\<close> sets up afterwards belong to the page and are not modelled; neither waits.
\<close>

definition maxAttempts :: nat where
  "maxAttempts = 50"

function poll :: "(nat \<Rightarrow> bool) \<Rightarrow> nat \<Rightarrow> nat" where
  "poll flag attempts =
     (if \<not> flag attempts \<and> attempts < maxAttempts then poll flag (Suc attempts) else attempts)"
  by pat_completeness auto
termination
  by (relation "measure (\<lambda>(flag, attempts). maxAttempts - attempts)") auto

declare poll.simps [simp del]

definition initialize :: "(nat \<Rightarrow> bool) \<Rightarrow> world \<Rightarrow> world" where
  "initialize ready w =
     (if isInitialized w then w
      else
        (let w1 = w\<lparr>isInitialized := True\<rparr> in
         if wrapper_present w1 then
           (let flag = (\<lambda>n. initialized w1 \<or> ready n);
                attempts = poll flag 0
            in w1\<lparr>initialized := flag attempts,
                  trace := trace w1 @ replicate attempts (Sleep 100)\<rparr>)
         else w1))"

text \<open>The events that wait for the handshake or drive it.\<close>

fun handshake_event :: "event \<Rightarrow> bool" where
  "handshake_event SendInit = True"
| "handshake_event (Sleep d) = True"
| "handshake_event ev = False"

section \<open>\<open>calculateNextLevel\<close> (Player Progress Saver)\<close>

text \<open>
  The heap maps a reference to an array or to a plain object. The function reads three
  properties only: \<open>isCustom\<close> and \<open>levels\<close> of a group and \<open>length\<close> of its levels.
  A plain object is therefore modelled by its \<open>isCustom\<close> and \<open>levels\<close> properties
  (\<open>undefined\<close> when the property is missing) and has no \<open>length\<close>; an array has a
  \<open>length\<close> and neither of the other two; arrays have no holes.
\<close>

datatype jsobj = JArray "jsval list" | JObject jsval jsval

type_synonym heap = "nat \<Rightarrow> jsobj"

text \<open>
  Reading a property of \<open>undefined\<close> or \<open>null\<close> raises a TypeError; on any other
  primitive a missing property reads as \<open>undefined\<close>. The length of a string is its
  number of characters.
\<close>

fun prop_isCustom :: "heap \<Rightarrow> jsval \<Rightarrow> jsval completion" where
  "prop_isCustom h (JPrim PUndefined) = Thrown"
| "prop_isCustom h (JPrim PNull) = Thrown"
| "prop_isCustom h (JPrim p) = Returned JUndefined"
| "prop_isCustom h (JStr s) = Returned JUndefined"
| "prop_isCustom h (JRef a) =
     (case h a of JArray xs \<Rightarrow> Returned JUndefined | JObject c l \<Rightarrow> Returned c)"

fun prop_levels :: "heap \<Rightarrow> jsval \<Rightarrow> jsval completion" where
  "prop_levels h (JPrim PUndefined) = Thrown"
| "prop_levels h (JPrim PNull) = Thrown"
| "prop_levels h (JPrim p) = Returned JUndefined"
| "prop_levels h (JStr s) = Returned JUndefined"
| "prop_levels h (JRef a) =
     (case h a of JArray xs \<Rightarrow> Returned JUndefined | JObject c l \<Rightarrow> Returned l)"

fun prop_length :: "heap \<Rightarrow> jsval \<Rightarrow> jsprim completion" where
  "prop_length h (JPrim PUndefined) = Thrown"
| "prop_length h (JPrim PNull) = Thrown"
| "prop_length h (JPrim p) = Returned PUndefined"
| "prop_length h (JStr s) = Returned (PInt (int (length s)))"
| "prop_length h (JRef a) =
     (case h a of JArray xs \<Rightarrow> Returned (PInt (int (length xs)))
      | JObject c l \<Rightarrow> Returned PUndefined)"

text \<open>\<open>Array.isArray\<close>, with the elements of the array.\<close>

fun as_array :: "heap \<Rightarrow> jsval \<Rightarrow> jsval list option" where
  "as_array h (JRef a) = (case h a of JArray xs \<Rightarrow> Some xs | JObject c l \<Rightarrow> None)"
| "as_array h v = None"

text \<open>
  Strict equality \<open>===\<close>: \<open>NaN\<close> equals nothing, objects are equal when they are the
  same object, primitives and strings when they have the same value.
\<close>

fun strict_eq :: "jsval \<Rightarrow> jsval \<Rightarrow> bool" where
  "strict_eq (JPrim PNaN) y = False"
| "strict_eq x (JPrim PNaN) = False"
| "strict_eq x y = (x = y)"

text \<open>\<open>Array.prototype.indexOf\<close>: the first index holding the value, or \<open>-1\<close>.\<close>

fun indexOf_from :: "nat \<Rightarrow> jsval list \<Rightarrow> jsval \<Rightarrow> int" where
  "indexOf_from i [] x = - 1"
| "indexOf_from i (y # ys) x = (if strict_eq y x then int i else indexOf_from (Suc i) ys x)"

definition indexOf :: "jsval list \<Rightarrow> jsval \<Rightarrow> int" where
  "indexOf xs x = indexOf_from 0 xs x"

text \<open>
  \<open>levelGroups.filter(group => !group.isCustom)\<close>: the callback raises on an element
  that is \<open>undefined\<close> or \<open>null\<close>, which ends the filter.
\<close>

fun filter_nonCustom :: "heap \<Rightarrow> jsval list \<Rightarrow> jsval list completion" where
  "filter_nonCustom h [] = Returned []"
| "filter_nonCustom h (grp # grps) =
     (case prop_isCustom h grp of
        Thrown \<Rightarrow> Thrown
      | Returned c \<Rightarrow>
          (case filter_nonCustom h grps of
             Thrown \<Rightarrow> Thrown
           | Returned rest \<Rightarrow> Returned (if truthy c then rest else grp # rest)))"

text \<open>
  \<open>levelGroups[currentLevelGroup]\<close> for a primitive key that is not a string: an
  integer within the bounds reads the element; every other key names no property of the
  array and reads \<open>undefined\<close>.
\<close>

fun array_get :: "jsval list \<Rightarrow> jsprim \<Rightarrow> jsval" where
  "array_get xs (PInt i) = (if 0 \<le> i \<and> i < int (length xs) then xs ! nat i else JUndefined)"
| "array_get xs p = JUndefined"

text \<open>
  Numbers are IEEE 754 doubles, and \<open>PInt n\<close> is the double whose value is the integer
  \<open>n\<close>. \<open>x + 1\<close> is the exact sum rounded to the nearest double, ties to the even
  significand: the sum itself from \<open>-2\<^sup>5\<^sup>3\<close> up to \<open>2\<^sup>5\<^sup>3 - 1\<close>; beyond that and
  below \<open>2\<^sup>5\<^sup>4\<close> in magnitude, where the doubles are the even integers, the sum lies
  halfway between \<open>x\<close> and \<open>x + 2\<close> and rounds to the multiple of 4; from \<open>2\<^sup>5\<^sup>4\<close> on
  in magnitude it rounds back to \<open>x\<close>.
\<close>

definition js_plus_one :: "int \<Rightarrow> int" where
  "js_plus_one n =
     (if - (2 ^ 53) \<le> n \<and> n < 2 ^ 53 then n + 1
      else if \<bar>n\<bar> < 2 ^ 54 then (if n mod 4 = 0 then n else n + 2)
      else n)"

text \<open>
  \<open>ToNumber\<close> on these primitives (\<open>None\<close> is \<open>NaN\<close>), \<open>currentLevel + 1\<close>, and the
  comparison \<open>a < b\<close>, which is false when either side is \<open>NaN\<close>.
\<close>

fun to_number :: "jsprim \<Rightarrow> int option" where
  "to_number PUndefined = None"
| "to_number PNull = Some 0"
| "to_number (PBool b) = Some (if b then 1 else 0)"
| "to_number (PInt n) = Some n"
| "to_number PNaN = None"

definition plus_one :: "jsprim \<Rightarrow> int option" where
  "plus_one p = map_option js_plus_one (to_number p)"

definition js_less :: "int option \<Rightarrow> jsprim \<Rightarrow> bool" where
  "js_less a b =
     (case a of None \<Rightarrow> False
      | Some x \<Rightarrow> (case to_number b of None \<Rightarrow> False | Some y \<Rightarrow> x < y))"

text \<open>
  The test \<open>currentLevel + 1 < length\<close> together with the value it guards: \<open>Some n\<close>
  when the test holds, \<open>n\<close> being the number \<open>currentLevel + 1\<close>, and \<open>None\<close> when
  it does not.
\<close>

definition next_in_group :: "jsprim \<Rightarrow> jsprim \<Rightarrow> int option" where
  "next_in_group currentLevel len =
     (if js_less (plus_one currentLevel) len then plus_one currentLevel else None)"

record next_level =
  nextLevel :: int
  nextLevelGroup :: int

text \<open>
  The body of the \<open>try\<close> block. \<open>currentLevel\<close> and \<open>currentLevelGroup\<close> range over
  the primitives that are not strings; \<open>levelGroups\<close> is any value. The result \<open>None\<close>
  is \<open>null\<close>.
\<close>

definition calculateNextLevel_try ::
  "heap \<Rightarrow> jsprim \<Rightarrow> jsprim \<Rightarrow> jsval \<Rightarrow> next_level option completion" where
  "calculateNextLevel_try h currentLevel currentLevelGroup levelGroups =
     (if \<not> truthy levelGroups then Returned None
      else case as_array h levelGroups of
        None \<Rightarrow> Returned None
      | Some groups \<Rightarrow>
         (case filter_nonCustom h groups of
            Thrown \<Rightarrow> Thrown
          | Returned nonCustomGroups \<Rightarrow>
              if length nonCustomGroups = 0 then Returned None
              else
                (let currentGroupInFiltered =
                       indexOf nonCustomGroups (array_get groups currentLevelGroup)
                 in
                 if currentGroupInFiltered = - 1 then Returned None
                 else
                   (case prop_levels h (nonCustomGroups ! nat currentGroupInFiltered) of
                      Thrown \<Rightarrow> Thrown
                    | Returned currentGroupLevels \<Rightarrow>
                       (let currentGroupIndexInAll =
                              indexOf groups (nonCustomGroups ! nat currentGroupInFiltered)
                        in
                        case prop_length h currentGroupLevels of
                          Thrown \<Rightarrow> Thrown
                        | Returned len \<Rightarrow>
                            (case next_in_group currentLevel len of
                               Some n \<Rightarrow>
                                 Returned (Some \<lparr>nextLevel = n,
                                                 nextLevelGroup = currentGroupIndexInAll\<rparr>)
                             | None \<Rightarrow>
                                 if currentGroupInFiltered + 1 < int (length nonCustomGroups) then
                                   Returned (Some \<lparr>nextLevel = 0,
                                     nextLevelGroup =
                                       indexOf groups
                                         (nonCustomGroups ! nat (currentGroupInFiltered + 1))\<rparr>)
                                 else Returned None))))))"

text \<open>The function: its \<open>catch\<close> logs the error and returns \<open>null\<close>.\<close>

definition calculateNextLevel ::
  "heap \<Rightarrow> jsprim \<Rightarrow> jsprim \<Rightarrow> jsval \<Rightarrow> next_level option completion" where
  "calculateNextLevel h currentLevel currentLevelGroup levelGroups =
     (case calculateNextLevel_try h currentLevel currentLevelGroup levelGroups of
        Thrown \<Rightarrow> Returned None
      | Returned r \<Rightarrow> Returned r)"

section \<open>Notions used in the statements\<close>

text \<open>
  Several calls of \<open>init\<close> one after the other, each awaited before the next starts,
  with the results in order.
\<close>

fun init_times :: "nat \<Rightarrow> env \<Rightarrow> world \<Rightarrow> bool completion list \<times> world" where
  "init_times 0 e w = ([], w)"
| "init_times (Suc n) e w =
     (case init e w of
        (r, w1) \<Rightarrow> (case init_times n e w1 of (rs, w2) \<Rightarrow> (r # rs, w2)))"

text \<open>
  Two calls of \<open>init\<close> issued in the same turn of the event loop, as in
  \<open>init(); init()\<close>: each runs up to its \<open>await\<close> before either continuation runs.
  Each call has sent a message of its own, which the platform answers or rejects on
  its own (\<open>rejected1\<close>, \<open>rejected2\<close>), and the continuations run in the order in which
  the messages settle (\<open>second_first\<close> when the second message settles first). The
  result is the pair of the two calls' results, in the order of the calls.
\<close>

definition init_overlapped ::
  "env \<Rightarrow> bool \<Rightarrow> bool \<Rightarrow> bool \<Rightarrow> world \<Rightarrow> (bool \<times> bool) \<times> world" where
  "init_overlapped e rejected1 rejected2 second_first w =
     (case init_begin e w of
        (p1, w1) \<Rightarrow>
          (case init_begin e w1 of
             (p2, w2) \<Rightarrow>
               if second_first then
                 (case init_settle p2 rejected2 w2 of
                    (b2, w3) \<Rightarrow>
                      (case init_settle p1 rejected1 w3 of
                         (b1, w4) \<Rightarrow> ((b1, b2), w4)))
               else
                 (case init_settle p1 rejected1 w2 of
                    (b1, w3) \<Rightarrow>
                      (case init_settle p2 rejected2 w3 of
                         (b2, w4) \<Rightarrow> ((b1, b2), w4)))))"

text \<open>
  The state once \<open>localStorage.removeItem(k)\<close> has returned and the cache entry for
  \<open>k\<close> has been deleted.
\<close>

definition cleared :: "key \<Rightarrow> world \<Rightarrow> world" where
  "cleared k w =
     (log_event (LocalRemove k) (w\<lparr>lstore := (lstore w)(k := None)\<rparr>))
       \<lparr>vkStorageCache := (vkStorageCache w)(k := None)\<rparr>"

text \<open>Whether a value is a boolean.\<close>

fun is_boolean :: "jsval \<Rightarrow> bool" where
  "is_boolean (JPrim (PBool b)) = True"
| "is_boolean v = False"

text \<open>
  A group whose \<open>isCustom\<close> is falsy; an index of \<open>levelGroups\<close> that designates such
  a group; the length of a group's \<open>levels\<close> when it has one; and a level number that
  is an index into a group's \<open>levels\<close>.
\<close>

definition non_custom :: "heap \<Rightarrow> jsval \<Rightarrow> bool" where
  "non_custom h g = (case prop_isCustom h g of Returned c \<Rightarrow> \<not> truthy c | Thrown \<Rightarrow> False)"

definition valid_group :: "heap \<Rightarrow> jsval list \<Rightarrow> int \<Rightarrow> bool" where
  "valid_group h groups idx =
     (0 \<le> idx \<and> idx < int (length groups) \<and> non_custom h (groups ! nat idx))"

definition levels_length :: "heap \<Rightarrow> jsval \<Rightarrow> int option" where
  "levels_length h g =
     (case prop_levels h g of
        Thrown \<Rightarrow> None
      | Returned l \<Rightarrow>
          (case prop_length h l of
             Returned (PInt n) \<Rightarrow> Some n
           | _ \<Rightarrow> None))"

definition level_in_range :: "heap \<Rightarrow> jsval \<Rightarrow> int \<Rightarrow> bool" where
  "level_in_range h g lvl =
     (case levels_length h g of None \<Rightarrow> False | Some len \<Rightarrow> 0 \<le> lvl \<and> lvl < len)"

text \<open>
  The first index of an array that holds a given value (the length of the array when
  none does), and the first index after \<open>p\<close> that holds a group with a falsy
  \<open>isCustom\<close>, if there is one.
\<close>

definition first_index :: "jsval list \<Rightarrow> jsval \<Rightarrow> nat" where
  "first_index xs x = length (takeWhile (\<lambda>y. y \<noteq> x) xs)"

definition next_non_custom :: "heap \<Rightarrow> jsval list \<Rightarrow> nat \<Rightarrow> nat option" where
  "next_non_custom h groups p =
     find (\<lambda>j. non_custom h (groups ! j)) [Suc p ..< length groups]"

section \<open>Concrete environments and states\<close>

text \<open>
  An environment without faults, and one in which the platform rejects every message.
\<close>

definition healthy_env :: env where
  "healthy_env = \<lparr>vkBridge_defined = True, init_rejects = False, storageGet_rejects = False,
     storageSet_rejects = False, getItem_throws = False, setItem_throws = False,
     removeItem_throws = False\<rparr>"

definition remote_down_env :: env where
  "remote_down_env = healthy_env\<lparr>init_rejects := True, storageGet_rejects := True,
     storageSet_rejects := True\<rparr>"

text \<open>
  Scenario A of the specification: the wrapper is ready, the platform holds
  \<open>{level:3}\<close> for \<open>progress\<close> and \<open>localStorage\<close> holds \<open>{level:1}\<close>.
  Scenario B: the wrapper exists but its handshake has not completed, and
  \<open>localStorage\<close> holds \<open>{level:1}\<close>.
\<close>

definition scenario_A :: world where
  "scenario_A = \<lparr>lstore = [''progress'' \<mapsto> ''{level:1}''], vkStorageCache = Map.empty,
     wrapper_present = True, initialized = True, isInitialized = True,
     vk_store = [''progress'' \<mapsto> ''{level:3}''], trace = []\<rparr>"

definition scenario_B :: world where
  "scenario_B = \<lparr>lstore = [''progress'' \<mapsto> ''{level:1}''], vkStorageCache = Map.empty,
     wrapper_present = True, initialized = False, isInitialized = False,
     vk_store = Map.empty, trace = []\<rparr>"

text \<open>
  A heap with \<open>levelGroups = [{levels: ["L0", "L1"]}, {isCustom: false, levels: []}]\<close> at
  reference 0: two groups that are not custom, the second without levels.
\<close>

definition two_groups :: heap where
  "two_groups =
     (\<lambda>a. if a = 0 then JArray [JRef 1, JRef 2]
          else if a = 1 then JObject JUndefined (JRef 3)
          else if a = 2 then JObject (JPrim (PBool False)) (JRef 4)
          else if a = 3 then JArray [JStr ''L0'', JStr ''L1'']
          else JArray [])"

text \<open>
  A heap with \<open>levelGroups = [{levels: ["L0"]}, NaN]\<close> at reference 0, and one with
  \<open>levelGroups = [a, a, b]\<close> at reference 0, where \<open>a = {levels: ["L0"]}\<close> is one
  object listed twice and \<open>b = {levels: ["M0"]}\<close>.
\<close>

definition nan_group :: heap where
  "nan_group =
     (\<lambda>a. if a = 0 then JArray [JRef 1, JPrim PNaN]
          else if a = 1 then JObject JUndefined (JRef 2)
          else JArray [JStr ''L0''])"

definition repeated_group :: heap where
  "repeated_group =
     (\<lambda>a. if a = 0 then JArray [JRef 1, JRef 1, JRef 2]
          else if a = 1 then JObject JUndefined (JRef 3)
          else if a = 2 then JObject JUndefined (JRef 4)
          else if a = 3 then JArray [JStr ''L0'']
          else JArray [JStr ''M0''])"

text \<open>Scenario A with a platform that holds the empty string for \<open>progress\<close>.\<close>

definition scenario_empty_remote :: world where
  "scenario_empty_remote = scenario_A\<lparr>vk_store := [''progress'' \<mapsto> []]\<rparr>"

text \<open>A handshake that never completes.\<close>

definition never_ready :: "nat \<Rightarrow> bool" where
  "never_ready n = False"

section \<open>The wrapper's storage calls once the handshake has succeeded\<close>

lemma storageGet_ready:
  "initialized w \<Longrightarrow> storageGet e k w =
     (if \<not> vkBridge_defined e then (Returned None, w)
      else if storageGet_rejects e then (Returned None, log_event (SendStorageGet k) w)
      else (Returned (vk_store w k), log_event (SendStorageGet k) w))"
  by (simp add: storageGet_def lazy_init_def send_VKWebAppStorageGet_def log_event_def)

lemma storageSet_ready:
  "initialized w \<Longrightarrow> storageSet e k v w =
     (if \<not> vkBridge_defined e then (Returned False, w)
      else if storageSet_rejects e then (Returned False, log_event (SendStorageSet k v) w)
      else (Returned True,
            log_event (SendStorageSet k v) (w\<lparr>vk_store := (vk_store w)(k \<mapsto> v)\<rparr>)))"
  by (simp add: storageSet_def lazy_init_def send_VKWebAppStorageSet_def log_event_def)

lemma storageSet_never_throws: "fst (storageSet e k v w) \<noteq> Thrown"
  by (simp add: storageSet_def split: prod.splits completion.splits)

lemma storageGet_never_throws: "fst (storageGet e k w) \<noteq> Thrown"
  by (simp add: storageGet_def split: prod.splits completion.splits)

text \<open>What the calls leave untouched.\<close>

lemma remote_ready_log_event [simp]: "remote_ready (log_event ev w) = remote_ready w"
  by (simp add: remote_ready_def log_event_def)

lemma remote_ready_lstore [simp]: "remote_ready (w\<lparr>lstore := m\<rparr>) = remote_ready w"
  by (simp add: remote_ready_def)

lemma remote_ready_cache [simp]: "remote_ready (w\<lparr>vkStorageCache := m\<rparr>) = remote_ready w"
  by (simp add: remote_ready_def)

lemma log_event_fields [simp]:
  "lstore (log_event ev w) = lstore w"
  "vkStorageCache (log_event ev w) = vkStorageCache w"
  "vk_store (log_event ev w) = vk_store w"
  "initialized (log_event ev w) = initialized w"
  "wrapper_present (log_event ev w) = wrapper_present w"
  "trace (log_event ev w) = trace w @ [ev]"
  by (simp_all add: log_event_def)

lemma storageGet_fields:
  assumes "initialized w"
  shows "lstore (snd (storageGet e k w)) = lstore w"
    and "vkStorageCache (snd (storageGet e k w)) = vkStorageCache w"
    and "vk_store (snd (storageGet e k w)) = vk_store w"
    and "remote_ready (snd (storageGet e k w)) = remote_ready w"
    and "initialized (snd (storageGet e k w))"
    and "filter handshake_event (trace (snd (storageGet e k w))) = filter handshake_event (trace w)"
  using assms by (simp_all add: storageGet_ready)

lemma storageSet_fields:
  assumes "initialized w"
  shows "lstore (snd (storageSet e k v w)) = lstore w"
    and "vkStorageCache (snd (storageSet e k v w)) = vkStorageCache w"
    and "remote_ready (snd (storageSet e k v w)) = remote_ready w"
    and "filter handshake_event (trace (snd (storageSet e k v w))) = filter handshake_event (trace w)"
  using assms by (simp_all add: storageSet_ready remote_ready_def)

section \<open>The bridge, case by case\<close>

text \<open>While the wrapper is not ready, each call is its local half.\<close>

lemma enhancedGetItem_not_ready:
  assumes "\<not> remote_ready w"
  shows "enhancedGetItem e k w =
     (if getItem_throws e then (Thrown, log_event (LocalGet k) (log_event (LocalGet k) w))
      else (Returned (lstore w k), log_event (LocalGet k) w))"
proof -
  have "enhancedGetItem_try e k w = getItem e k w"
    using assms
    by (simp add: enhancedGetItem_try_def enhancedGetItem_local_def getItem_def
        split: option.splits)
  then show ?thesis
    by (simp add: enhancedGetItem_def getItem_def)
qed

lemma enhancedSetItem_not_ready:
  assumes "\<not> remote_ready w"
  shows "enhancedSetItem e k v w = (Returned JUndefined, snd (setItem e k v w))"
  using assms
  by (simp add: enhancedSetItem_def enhancedSetItem_try_def setItem_def)

lemma enhancedRemoveItem_not_ready:
  assumes "\<not> removeItem_throws e" and "\<not> remote_ready w"
  shows "enhancedRemoveItem e k w = (Returned JUndefined, cleared k w)"
  using assms
  by (simp add: enhancedRemoveItem_def enhancedRemoveItem_try_def removeItem_def cleared_def
      Let_def)

text \<open>
  When \<open>localStorage.removeItem\<close> throws, the call resolves and nothing is cleared.
\<close>

lemma enhancedRemoveItem_throws:
  assumes "removeItem_throws e"
  shows "enhancedRemoveItem e k w = (Returned JUndefined, log_event (LocalRemove k) w)"
  using assms
  by (simp add: enhancedRemoveItem_def enhancedRemoveItem_try_def removeItem_def)

lemma cleared_fields [simp]:
  "lstore (cleared k w) = (lstore w)(k := None)"
  "vkStorageCache (cleared k w) = (vkStorageCache w)(k := None)"
  "vk_store (cleared k w) = vk_store w"
  "initialized (cleared k w) = initialized w"
  "wrapper_present (cleared k w) = wrapper_present w"
  "remote_ready (cleared k w) = remote_ready w"
  "trace (cleared k w) = trace w @ [LocalRemove k]"
  by (simp_all add: cleared_def)

text \<open>With the wrapper ready.\<close>

lemma enhancedSetItem_ready:
  assumes "remote_ready w"
  shows "enhancedSetItem e k v w =
     (Returned JUndefined,
      if setItem_throws e then log_event (LocalSet k v) w
      else if \<not> vkBridge_defined e then
        log_event (LocalSet k v) (w\<lparr>lstore := (lstore w)(k \<mapsto> v)\<rparr>)
      else if storageSet_rejects e then
        log_event (SendStorageSet k v)
          (log_event (LocalSet k v) (w\<lparr>lstore := (lstore w)(k \<mapsto> v)\<rparr>))
      else
        (log_event (SendStorageSet k v)
          (log_event (LocalSet k v)
            (w\<lparr>lstore := (lstore w)(k \<mapsto> v), vk_store := (vk_store w)(k \<mapsto> v)\<rparr>)))
        \<lparr>vkStorageCache := (vkStorageCache w)(k \<mapsto> v)\<rparr>)"
  using assms
    storageSet_ready [of "log_event (LocalSet k v) (w\<lparr>lstore := (lstore w)(k \<mapsto> v)\<rparr>)" e k v]
  by (simp add: enhancedSetItem_def enhancedSetItem_try_def setItem_def remote_ready_def
      log_event_def)

lemma enhancedRemoveItem_ready:
  assumes "\<not> removeItem_throws e" and "remote_ready w"
  shows "enhancedRemoveItem e k w =
     (Returned JUndefined, snd (storageSet e k [] (cleared k w)))"
proof -
  have ready: "remote_ready (cleared k w)"
    using assms(2) by simp
  obtain b w3 where s: "storageSet e k [] (cleared k w) = (Returned b, w3)"
    using storageSet_never_throws [of e k "[]" "cleared k w"]
    by (cases "storageSet e k [] (cleared k w)"; cases "fst (storageSet e k [] (cleared k w))")
      auto
  have "(log_event (LocalRemove k) (w\<lparr>lstore := (lstore w)(k := None)\<rparr>))
      \<lparr>vkStorageCache := (vkStorageCache w)(k := None)\<rparr> = cleared k w"
    by (simp add: cleared_def)
  with assms(1) ready s show ?thesis
    by (simp add: enhancedRemoveItem_def enhancedRemoveItem_try_def removeItem_def Let_def)
qed

text \<open>
  The local half of a read: it throws when the local read throws, returns \<open>null\<close>
  when \<open>localStorage\<close> has no entry, and otherwise returns the entry, after writing it
  up through the wrapper when the wrapper is ready.
\<close>

lemma enhancedGetItem_local_eq:
  "enhancedGetItem_local e k w =
     (if getItem_throws e then (Thrown, log_event (LocalGet k) w)
      else case lstore w k of
        None \<Rightarrow> (Returned None, log_event (LocalGet k) w)
      | Some localValue \<Rightarrow>
          (Returned (Some localValue),
           if remote_ready w then snd (storageSet e k localValue (log_event (LocalGet k) w))
           else log_event (LocalGet k) w))"
proof (cases "getItem_throws e")
  case True
  then show ?thesis by (simp add: enhancedGetItem_local_def getItem_def)
next
  case False
  show ?thesis
  proof (cases "lstore w k")
    case None
    with False show ?thesis by (simp add: enhancedGetItem_local_def getItem_def)
  next
    case (Some localValue)
    let ?w1 = "log_event (LocalGet k) w"
    obtain b w2 where s: "storageSet e k localValue ?w1 = (Returned b, w2)"
      using storageSet_never_throws [of e k localValue ?w1]
      by (cases "storageSet e k localValue ?w1"; cases "fst (storageSet e k localValue ?w1)") auto
    with False Some show ?thesis
      by (simp add: enhancedGetItem_local_def getItem_def)
  qed
qed

text \<open>A read with the wrapper ready, by what the wrapper's read yields.\<close>

lemma enhancedGetItem_ready_value:
  assumes "remote_ready w" and "fst (storageGet e k w) = Returned (Some v)" and "v \<noteq> []"
  shows "enhancedGetItem e k w =
     (if setItem_throws e then
        getItem e k (log_event (LocalSet k v)
          ((snd (storageGet e k w))\<lparr>vkStorageCache := (vkStorageCache w)(k \<mapsto> v)\<rparr>))
      else
        (Returned (Some v),
         log_event (LocalSet k v)
           ((snd (storageGet e k w))\<lparr>vkStorageCache := (vkStorageCache w)(k \<mapsto> v),
              lstore := (lstore w)(k \<mapsto> v)\<rparr>)))"
proof -
  from assms(1) have init: "initialized w" by (simp add: remote_ready_def)
  obtain w1 where g: "storageGet e k w = (Returned (Some v), w1)"
    using assms(2) by (cases "storageGet e k w") simp
  from storageGet_fields(1,2) [OF init, of e k] g
  have "lstore w1 = lstore w" "vkStorageCache w1 = vkStorageCache w" by simp_all
  with assms(1,3) g show ?thesis
    by (simp add: enhancedGetItem_def enhancedGetItem_try_def setItem_def Let_def)
qed

lemma enhancedGetItem_ready_fallback:
  assumes "remote_ready w"
    and "fst (storageGet e k w) = Returned None \<or> fst (storageGet e k w) = Returned (Some [])"
  shows "enhancedGetItem e k w =
     (if getItem_throws e then
        (Thrown, log_event (LocalGet k) (log_event (LocalGet k) (snd (storageGet e k w))))
      else case lstore w k of
        None \<Rightarrow> (Returned None, log_event (LocalGet k) (snd (storageGet e k w)))
      | Some localValue \<Rightarrow>
          (Returned (Some localValue),
           snd (storageSet e k localValue (log_event (LocalGet k) (snd (storageGet e k w))))))"
proof -
  from assms(1) have init: "initialized w" by (simp add: remote_ready_def)
  have body: "enhancedGetItem_try e k w = enhancedGetItem_local e k (snd (storageGet e k w))"
    using assms by (cases "storageGet e k w") (auto simp: enhancedGetItem_try_def)
  from storageGet_fields(1,4) [OF init, of e k] assms(1)
  have keep: "lstore (snd (storageGet e k w)) = lstore w" "remote_ready (snd (storageGet e k w))"
    by simp_all
  show ?thesis
    by (simp add: enhancedGetItem_def body enhancedGetItem_local_eq keep getItem_def
        split: option.splits)
qed

text \<open>The wrapper's read, when ready, yields a non-empty value or falls in the other case.\<close>

lemma storageGet_outcome:
  "(\<exists>v. fst (storageGet e k w) = Returned (Some v) \<and> v \<noteq> []) \<or>
   fst (storageGet e k w) = Returned None \<or> fst (storageGet e k w) = Returned (Some [])"
proof (cases "fst (storageGet e k w)")
  case (Returned r)
  then show ?thesis by (cases r) auto
next
  case Thrown
  with storageGet_never_throws [of e k w] show ?thesis by simp
qed


section \<open>The bridge as an error boundary\<close>

text \<open>
  \<open>enhancedSetItem\<close> and \<open>enhancedRemoveItem\<close> never reject: their \<open>catch\<close> only
  logs. \<open>enhancedGetItem\<close> rejects exactly when \<open>localStorage.getItem\<close> throws and the
  call did not already return a remote value: its \<open>catch\<close> repeats the read outside
  any \<open>try\<close>. \<open>safeStorage.getItem\<close> guards the same read and never throws.
\<close>

lemma enhancedSetItem_never_throws: "fst (enhancedSetItem e k v w) = Returned JUndefined"
  by (simp add: enhancedSetItem_def split: prod.splits completion.splits)

lemma enhancedRemoveItem_never_throws: "fst (enhancedRemoveItem e k w) = Returned JUndefined"
  by (simp add: enhancedRemoveItem_def split: prod.splits completion.splits)

lemma safeStorage_getItem_never_throws: "fst (safeStorage_getItem e k w) \<noteq> Thrown"
  by (simp add: safeStorage_getItem_def getItem_def)

lemma enhancedGetItem_throws_iff:
  "fst (enhancedGetItem e k w) = Thrown \<longleftrightarrow>
     getItem_throws e \<and>
     \<not> (remote_ready w \<and> \<not> setItem_throws e \<and>
        (\<exists>v. fst (storageGet e k w) = Returned (Some v) \<and> v \<noteq> []))"
proof (cases "remote_ready w")
  case False
  then show ?thesis by (simp add: enhancedGetItem_not_ready)
next
  case True
  from storageGet_outcome [of e k w] show ?thesis
  proof (elim disjE exE conjE)
    fix v assume v: "fst (storageGet e k w) = Returned (Some v)" "v \<noteq> []"
    from enhancedGetItem_ready_value [OF True v] True v show ?thesis
      by (simp add: getItem_def)
  next
    assume n: "fst (storageGet e k w) = Returned None"
    then have "fst (storageGet e k w) = Returned None \<or> fst (storageGet e k w) = Returned (Some [])"
      by simp
    from enhancedGetItem_ready_fallback [OF True this] n show ?thesis
      by (simp split: option.splits)
  next
    assume n: "fst (storageGet e k w) = Returned (Some [])"
    then have "fst (storageGet e k w) = Returned None \<or> fst (storageGet e k w) = Returned (Some [])"
      by simp
    from enhancedGetItem_ready_fallback [OF True this] n show ?thesis
      by (simp split: option.splits)
  qed
qed

text \<open>
  C1. The claim: \<open>get\<close>, \<open>set\<close> and \<open>remove\<close> never propagate an exception, also when
  the final local read throws. In scenario B with a \<open>localStorage.getItem\<close> that throws,
  the promise of \<open>enhancedGetItem("progress")\<close> is rejected.
\<close>

theorem enhancedGetItem_propagates:
  "fst (enhancedGetItem (healthy_env\<lparr>getItem_throws := True\<rparr>) ''progress'' scenario_B) = Thrown"
  by (simp add: enhancedGetItem_def enhancedGetItem_try_def enhancedGetItem_local_def getItem_def
      remote_ready_def healthy_env_def scenario_B_def)

section \<open>Writes\<close>

text \<open>
  C2, amended. When \<open>localStorage.setItem\<close> does not throw, \<open>set(k, v)\<close> resolves and
  \<open>localStorage\<close> then holds \<open>v\<close> for \<open>k\<close>, whatever the state of the wrapper and of
  the platform; the local write is the first call made, and the only call that can
  follow it is the platform write of the same value.
\<close>

theorem set_local_durability:
  assumes "\<not> setItem_throws e"
  shows "fst (enhancedSetItem e k v w) = Returned JUndefined \<and>
         lstore (snd (enhancedSetItem e k v w)) k = Some v \<and>
         (trace (snd (enhancedSetItem e k v w)) = trace w @ [LocalSet k v] \<or>
          trace (snd (enhancedSetItem e k v w)) = trace w @ [LocalSet k v, SendStorageSet k v])"
proof (cases "remote_ready w")
  case True
  with assms show ?thesis by (simp add: enhancedSetItem_ready)
next
  case False
  with assms show ?thesis by (simp add: enhancedSetItem_not_ready setItem_def)
qed

theorem set_local_durability_witness:
  "fst (enhancedSetItem remote_down_env ''k'' ''v'' scenario_A) = Returned JUndefined \<and>
   lstore (snd (enhancedSetItem remote_down_env ''k'' ''v'' scenario_A)) ''k'' = Some ''v'' \<and>
   trace (snd (enhancedSetItem remote_down_env ''k'' ''v'' scenario_A)) =
     [LocalSet ''k'' ''v'', SendStorageSet ''k'' ''v'']"
proof -
  have ok: "\<not> setItem_throws remote_down_env"
    by (simp add: remote_down_env_def healthy_env_def)
  have "remote_ready scenario_A"
    by (simp add: scenario_A_def remote_ready_def)
  then have "trace (snd (enhancedSetItem remote_down_env ''k'' ''v'' scenario_A)) =
      [LocalSet ''k'' ''v'', SendStorageSet ''k'' ''v'']"
    by (simp add: enhancedSetItem_ready remote_down_env_def healthy_env_def scenario_A_def)
  with set_local_durability [OF ok, of "''k''" "''v''" scenario_A] show ?thesis by simp
qed

text \<open>
  C2 as stated fails when the local write throws (an exceeded quota): \<open>set\<close> resolves
  all the same, and \<open>localStorage\<close> does not hold the value.
\<close>

theorem set_quota_counterexample:
  "fst (enhancedSetItem (healthy_env\<lparr>setItem_throws := True\<rparr>) ''k'' ''v'' scenario_A) =
     Returned JUndefined \<and>
   lstore (snd (enhancedSetItem (healthy_env\<lparr>setItem_throws := True\<rparr>) ''k'' ''v'' scenario_A))
     ''k'' = None"
  by (simp add: enhancedSetItem_def enhancedSetItem_try_def setItem_def healthy_env_def
      scenario_A_def)

section \<open>Reads\<close>

text \<open>
  C3, amended. When the wrapper is ready, its read of \<open>k\<close> yields a non-empty value \<open>v\<close>
  and the write-through \<open>localStorage.setItem(k, v)\<close> does not throw, \<open>get(k)\<close> returns
  \<open>v\<close> whatever \<open>localStorage\<close> held before, the cache records \<open>v\<close> and \<open>localStorage\<close>
  holds \<open>v\<close> afterwards.
\<close>

theorem get_remote_preference:
  assumes "remote_ready w"
    and "fst (storageGet e k w) = Returned (Some v)"
    and "v \<noteq> []"
    and "\<not> setItem_throws e"
  shows "fst (enhancedGetItem e k w) = Returned (Some v) \<and>
         vkStorageCache (snd (enhancedGetItem e k w)) k = Some v \<and>
         lstore (snd (enhancedGetItem e k w)) k = Some v"
  using assms(4) by (simp add: enhancedGetItem_ready_value [OF assms(1,2,3)])

theorem get_remote_preference_witness:
  "fst (enhancedGetItem healthy_env ''progress'' scenario_A) = Returned (Some ''{level:3}'') \<and>
   vkStorageCache (snd (enhancedGetItem healthy_env ''progress'' scenario_A)) ''progress''
     = Some ''{level:3}'' \<and>
   lstore (snd (enhancedGetItem healthy_env ''progress'' scenario_A)) ''progress''
     = Some ''{level:3}''"
proof -
  have ready: "remote_ready scenario_A"
    by (simp add: scenario_A_def remote_ready_def)
  have remote: "fst (storageGet healthy_env ''progress'' scenario_A) = Returned (Some ''{level:3}'')"
    by (simp add: storageGet_ready scenario_A_def healthy_env_def)
  have ok: "\<not> setItem_throws healthy_env"
    by (simp add: healthy_env_def)
  from get_remote_preference [OF ready remote _ ok] show ?thesis by simp
qed

text \<open>
  C3 as stated fails when the write-through throws: in scenario A with an exceeded
  quota the wrapper's read yields \<open>{level:3}\<close>, yet \<open>get\<close> returns the stale local
  \<open>{level:1}\<close> from its \<open>catch\<close>, and \<open>localStorage\<close> keeps \<open>{level:1}\<close>.
\<close>

theorem get_write_through_counterexample:
  "remote_ready scenario_A \<and>
   fst (storageGet (healthy_env\<lparr>setItem_throws := True\<rparr>) ''progress'' scenario_A)
     = Returned (Some ''{level:3}'') \<and>
   fst (enhancedGetItem (healthy_env\<lparr>setItem_throws := True\<rparr>) ''progress'' scenario_A)
     = Returned (Some ''{level:1}'') \<and>
   lstore (snd (enhancedGetItem (healthy_env\<lparr>setItem_throws := True\<rparr>) ''progress'' scenario_A))
     ''progress'' = Some ''{level:1}''"
  by (simp add: enhancedGetItem_def enhancedGetItem_try_def getItem_def setItem_def
      remote_ready_def storageGet_ready healthy_env_def scenario_A_def log_event_def)


text \<open>
  C4. When the wrapper is not ready, or the platform read throws, or the wrapper's read
  yields \<open>null\<close> or the empty string, and the local read returns \<open>v\<close>, then \<open>get(k)\<close>
  returns \<open>v\<close>. When the wrapper is ready, the call ends with the wrapper's
  \<open>storageSet(k, v)\<close>, which stores \<open>v\<close> on the platform unless the platform fails;
  when it is not ready, the local read is the only call made.
\<close>

theorem get_local_fallback:
  assumes remote: "\<not> remote_ready w \<or> fst (send_VKWebAppStorageGet e k w) = Thrown \<or>
      fst (storageGet e k w) = Returned None \<or> fst (storageGet e k w) = Returned (Some [])"
    and loc: "fst (getItem e k w) = Returned (Some v)"
  shows "fst (enhancedGetItem e k w) = Returned (Some v) \<and>
         (if remote_ready w
          then snd (enhancedGetItem e k w) =
                 snd (storageSet e k v (snd (getItem e k (snd (storageGet e k w)))))
          else snd (enhancedGetItem e k w) = snd (getItem e k w)) \<and>
         (remote_ready w \<and> vkBridge_defined e \<and> \<not> storageSet_rejects e \<longrightarrow>
            vk_store (snd (enhancedGetItem e k w)) k = Some v)"
proof -
  from loc have ok: "\<not> getItem_throws e" and lv: "lstore w k = Some v"
    by (simp_all add: getItem_def split: if_splits)
  show ?thesis
  proof (cases "remote_ready w")
    case False
    with ok lv show ?thesis
      by (simp add: enhancedGetItem_not_ready getItem_def)
  next
    case True
    then have init: "initialized w" by (simp add: remote_ready_def)
    have "fst (send_VKWebAppStorageGet e k w) = Thrown \<Longrightarrow>
        fst (storageGet e k w) = Returned None"
      using init by (simp add: storageGet_ready send_VKWebAppStorageGet_def split: if_splits)
    with remote True
    have no_value: "fst (storageGet e k w) = Returned None \<or>
        fst (storageGet e k w) = Returned (Some [])"
      by blast
    let ?w2 = "log_event (LocalGet k) (snd (storageGet e k w))"
    have res: "enhancedGetItem e k w = (Returned (Some v), snd (storageSet e k v ?w2))"
      using ok lv by (simp add: enhancedGetItem_ready_fallback [OF True no_value])
    have "initialized ?w2"
      using storageGet_fields(5) [OF init, of e k] by simp
    then have "vkBridge_defined e \<and> \<not> storageSet_rejects e \<longrightarrow>
        vk_store (snd (storageSet e k v ?w2)) k = Some v"
      by (simp add: storageSet_ready)
    with res True ok show ?thesis
      by (simp add: getItem_def)
  qed
qed

theorem get_local_fallback_witness:
  "fst (enhancedGetItem healthy_env ''progress'' scenario_empty_remote)
     = Returned (Some ''{level:1}'') \<and>
   vk_store (snd (enhancedGetItem healthy_env ''progress'' scenario_empty_remote)) ''progress''
     = Some ''{level:1}''"
proof -
  have remote: "\<not> remote_ready scenario_empty_remote \<or>
      fst (send_VKWebAppStorageGet healthy_env ''progress'' scenario_empty_remote) = Thrown \<or>
      fst (storageGet healthy_env ''progress'' scenario_empty_remote) = Returned None \<or>
      fst (storageGet healthy_env ''progress'' scenario_empty_remote) = Returned (Some [])"
    by (simp add: scenario_empty_remote_def scenario_A_def healthy_env_def storageGet_ready)
  have loc: "fst (getItem healthy_env ''progress'' scenario_empty_remote)
      = Returned (Some ''{level:1}'')"
    by (simp add: scenario_empty_remote_def scenario_A_def healthy_env_def getItem_def)
  have ready: "remote_ready scenario_empty_remote \<and> vkBridge_defined healthy_env \<and>
      \<not> storageSet_rejects healthy_env"
    by (simp add: scenario_empty_remote_def scenario_A_def healthy_env_def remote_ready_def)
  from get_local_fallback [OF remote loc] ready show ?thesis by blast
qed

section \<open>Removal\<close>

text \<open>
  A read of a key that \<open>localStorage\<close> does not hold, with a local read that does not
  throw: it returns the platform's value when the wrapper is ready, the platform read
  succeeds, the value is not empty and the write-through does not throw; in every other
  case it returns \<open>null\<close>.
\<close>

lemma enhancedGetItem_no_local_entry:
  assumes ok: "\<not> getItem_throws e" and none: "lstore w k = None"
  shows "fst (enhancedGetItem e k w) =
     (case vk_store w k of
        None \<Rightarrow> Returned None
      | Some v \<Rightarrow>
          if v \<noteq> [] \<and> remote_ready w \<and> vkBridge_defined e \<and> \<not> storageGet_rejects e \<and>
             \<not> setItem_throws e
          then Returned (Some v) else Returned None)"
proof (cases "remote_ready w")
  case False
  with ok none show ?thesis
    by (simp add: enhancedGetItem_not_ready split: option.splits)
next
  case True
  then have init: "initialized w" by (simp add: remote_ready_def)
  note keep = storageGet_fields(1) [OF init, of e k]
  show ?thesis
  proof (cases "\<exists>v. fst (storageGet e k w) = Returned (Some v) \<and> v \<noteq> []")
    case True
    then obtain v where v: "fst (storageGet e k w) = Returned (Some v)" "v \<noteq> []" by blast
    then have platform: "vkBridge_defined e" "\<not> storageGet_rejects e" "vk_store w k = Some v"
      by (simp_all add: storageGet_ready [OF init] split: if_splits)
    from enhancedGetItem_ready_value [OF \<open>remote_ready w\<close> v] ok none keep platform v(2)
      \<open>remote_ready w\<close>
    show ?thesis by (simp add: getItem_def)
  next
    case False
    with storageGet_outcome [of e k w]
    have fallback: "fst (storageGet e k w) = Returned None \<or>
        fst (storageGet e k w) = Returned (Some [])"
      by blast
    from False have "vk_store w k = None \<or> vk_store w k = Some [] \<or>
        \<not> vkBridge_defined e \<or> storageGet_rejects e"
      by (cases "vk_store w k") (auto simp: storageGet_ready [OF init])
    with enhancedGetItem_ready_fallback [OF \<open>remote_ready w\<close> fallback] ok none
    show ?thesis by (auto split: option.splits)
  qed
qed

text \<open>
  C5, amended. \<open>remove(k)\<close> always resolves. When \<open>localStorage.removeItem\<close> throws,
  nothing is cleared. When it does not, \<open>localStorage\<close> and the cache have no entry for
  \<open>k\<close> afterwards, and when the wrapper is ready the call ends with the wrapper's
  \<open>storageSet(k, "")\<close>, which leaves the empty string on the platform unless the
  platform fails. A following \<open>get(k)\<close> whose local read does not throw, whatever the
  wrapper's readiness \<open>ready'\<close> is by then, returns \<open>null\<close>, except when at that time the
  wrapper is ready, the platform read succeeds, the platform still holds a non-empty
  value for \<open>k\<close> and the write-through does not throw: then it returns that value.
\<close>

theorem remove_semantics:
  "fst (enhancedRemoveItem e k w) = Returned JUndefined \<and>
   (removeItem_throws e \<longrightarrow> snd (enhancedRemoveItem e k w) = log_event (LocalRemove k) w) \<and>
   (\<not> removeItem_throws e \<longrightarrow>
      lstore (snd (enhancedRemoveItem e k w)) k = None \<and>
      vkStorageCache (snd (enhancedRemoveItem e k w)) k = None \<and>
      snd (enhancedRemoveItem e k w) =
        (if remote_ready w then snd (storageSet e k [] (cleared k w)) else cleared k w) \<and>
      vk_store (snd (enhancedRemoveItem e k w)) k =
        (if remote_ready w \<and> vkBridge_defined e \<and> \<not> storageSet_rejects e then Some []
         else vk_store w k) \<and>
      (\<not> getItem_throws e' \<longrightarrow>
         fst (enhancedGetItem e' k ((snd (enhancedRemoveItem e k w))\<lparr>initialized := ready'\<rparr>)) =
           (case vk_store (snd (enhancedRemoveItem e k w)) k of
              None \<Rightarrow> Returned None
            | Some v \<Rightarrow>
                if v \<noteq> [] \<and> wrapper_present w \<and> ready' \<and> vkBridge_defined e' \<and>
                   \<not> storageGet_rejects e' \<and> \<not> setItem_throws e'
                then Returned (Some v) else Returned None)))"
proof (cases "removeItem_throws e")
  case True
  then show ?thesis
    by (simp add: enhancedRemoveItem_throws)
next
  case False
  define w1 where "w1 = snd (enhancedRemoveItem e k w)"
  have after: "enhancedRemoveItem e k w = (Returned JUndefined, w1)"
    and w1: "w1 = (if remote_ready w then snd (storageSet e k [] (cleared k w)) else cleared k w)"
    using False
    by (cases "remote_ready w";
        simp add: w1_def enhancedRemoveItem_ready enhancedRemoveItem_not_ready)+
  have fields: "lstore w1 k = None \<and> vkStorageCache w1 k = None \<and>
      wrapper_present w1 = wrapper_present w \<and>
      vk_store w1 k =
        (if remote_ready w \<and> vkBridge_defined e \<and> \<not> storageSet_rejects e then Some []
         else vk_store w k)"
  proof (cases "remote_ready w")
    case True
    then have init: "initialized (cleared k w)" by (simp add: remote_ready_def)
    from True w1 have eq: "w1 = snd (storageSet e k [] (cleared k w))" by simp
    show ?thesis
      using True by (simp add: eq storageSet_ready [OF init])
  next
    case False
    with w1 have eq: "w1 = cleared k w" by simp
    show ?thesis
      using False by (simp add: eq)
  qed
  have later: "fst (enhancedGetItem e' k (w1\<lparr>initialized := ready'\<rparr>)) =
      (case vk_store w1 k of
         None \<Rightarrow> Returned None
       | Some v \<Rightarrow>
           if v \<noteq> [] \<and> wrapper_present w \<and> ready' \<and> vkBridge_defined e' \<and>
              \<not> storageGet_rejects e' \<and> \<not> setItem_throws e'
           then Returned (Some v) else Returned None)"
    if ok: "\<not> getItem_throws e'"
  proof -
    have "lstore (w1\<lparr>initialized := ready'\<rparr>) k = None"
      using fields by simp
    moreover have "remote_ready (w1\<lparr>initialized := ready'\<rparr>) = (wrapper_present w \<and> ready')"
      using fields by (simp add: remote_ready_def)
    moreover have "vk_store (w1\<lparr>initialized := ready'\<rparr>) = vk_store w1"
      by simp
    ultimately show ?thesis
      using enhancedGetItem_no_local_entry [OF ok, of "w1\<lparr>initialized := ready'\<rparr>" k]
      by (simp add: conj_assoc cong: option.case_cong)
  qed
  from False after w1 fields later show ?thesis
    by (simp add: w1_def)
qed

theorem remove_semantics_witness:
  "vk_store (snd (enhancedRemoveItem healthy_env ''progress'' scenario_A)) ''progress'' = Some [] \<and>
   fst (enhancedGetItem healthy_env ''progress''
     ((snd (enhancedRemoveItem healthy_env ''progress'' scenario_A))\<lparr>initialized := True\<rparr>))
     = Returned None"
proof -
  have env: "\<not> removeItem_throws healthy_env" "\<not> getItem_throws healthy_env"
      "vkBridge_defined healthy_env" "\<not> storageSet_rejects healthy_env"
    by (simp_all add: healthy_env_def)
  have ready: "remote_ready scenario_A"
    by (simp add: scenario_A_def remote_ready_def)
  note removal = remove_semantics [of healthy_env "''progress''" scenario_A healthy_env True]
  from removal env(1)
  have "vk_store (snd (enhancedRemoveItem healthy_env ''progress'' scenario_A)) ''progress'' =
      (if remote_ready scenario_A \<and> vkBridge_defined healthy_env \<and>
          \<not> storageSet_rejects healthy_env
       then Some [] else vk_store scenario_A ''progress'')"
    by blast
  with env ready
  have stored: "vk_store (snd (enhancedRemoveItem healthy_env ''progress'' scenario_A))
      ''progress'' = Some []"
    by simp
  from removal env(1,2)
  have "fst (enhancedGetItem healthy_env ''progress''
      ((snd (enhancedRemoveItem healthy_env ''progress'' scenario_A))\<lparr>initialized := True\<rparr>)) =
      (case vk_store (snd (enhancedRemoveItem healthy_env ''progress'' scenario_A)) ''progress'' of
         None \<Rightarrow> Returned None
       | Some v \<Rightarrow>
           if v \<noteq> [] \<and> wrapper_present scenario_A \<and> True \<and> vkBridge_defined healthy_env \<and>
              \<not> storageGet_rejects healthy_env \<and> \<not> setItem_throws healthy_env
           then Returned (Some v) else Returned None)"
    by blast
  with stored show ?thesis by simp
qed

text \<open>
  C5 as stated fails when the platform rejects the write of the empty string: in
  scenario A, \<open>remove("progress")\<close> resolves and clears \<open>localStorage\<close>, the platform
  keeps \<open>{level:3}\<close>, and the following \<open>get("progress")\<close> returns \<open>{level:3}\<close>.
\<close>

theorem remove_then_get_counterexample:
  "fst (enhancedRemoveItem (healthy_env\<lparr>storageSet_rejects := True\<rparr>) ''progress'' scenario_A)
     = Returned JUndefined \<and>
   lstore (snd (enhancedRemoveItem (healthy_env\<lparr>storageSet_rejects := True\<rparr>) ''progress''
     scenario_A)) ''progress'' = None \<and>
   fst (enhancedGetItem healthy_env ''progress''
     (snd (enhancedRemoveItem (healthy_env\<lparr>storageSet_rejects := True\<rparr>) ''progress''
        scenario_A))) = Returned (Some ''{level:3}'')"
proof -
  let ?e = "healthy_env\<lparr>storageSet_rejects := True\<rparr>"
  let ?w = "(scenario_A\<lparr>lstore := (lstore scenario_A)(''progress'' := None),
      trace := [LocalRemove ''progress'', SendStorageSet ''progress'' []]\<rparr>)"
  have after: "enhancedRemoveItem ?e ''progress'' scenario_A = (Returned JUndefined, ?w)"
    by (simp add: enhancedRemoveItem_def enhancedRemoveItem_try_def removeItem_def
        remote_ready_def storageSet_ready healthy_env_def scenario_A_def log_event_def)
  have "fst (enhancedGetItem healthy_env ''progress'' ?w) = Returned (Some ''{level:3}'')"
    by (simp add: enhancedGetItem_def enhancedGetItem_try_def setItem_def
        remote_ready_def storageGet_ready healthy_env_def scenario_A_def log_event_def)
  with after show ?thesis by (simp add: scenario_A_def)
qed

text \<open>
  The same happens without any failure when the handshake completes between the two
  calls: in scenario B, \<open>remove("progress")\<close> makes no platform call, and once the
  wrapper is ready a platform that holds \<open>{level:3}\<close> gives it back. And when
  \<open>localStorage.removeItem\<close> throws, \<open>remove\<close> resolves with the local entry in place.
\<close>

lemma remove_before_handshake:
  "fst (enhancedGetItem healthy_env ''progress''
     ((snd (enhancedRemoveItem healthy_env ''progress''
         (scenario_B\<lparr>vk_store := [''progress'' \<mapsto> ''{level:3}'']\<rparr>)))\<lparr>initialized := True\<rparr>))
     = Returned (Some ''{level:3}'')"
proof -
  let ?w = "scenario_B\<lparr>vk_store := [''progress'' \<mapsto> ''{level:3}'']\<rparr>"
  have "\<not> removeItem_throws healthy_env" "\<not> remote_ready ?w"
    by (simp_all add: healthy_env_def scenario_B_def remote_ready_def)
  then have "enhancedRemoveItem healthy_env ''progress'' ?w
      = (Returned JUndefined, cleared ''progress'' ?w)"
    by (rule enhancedRemoveItem_not_ready)
  moreover have "fst (enhancedGetItem healthy_env ''progress''
      ((cleared ''progress'' ?w)\<lparr>initialized := True\<rparr>)) = Returned (Some ''{level:3}'')"
    by (simp add: enhancedGetItem_def enhancedGetItem_try_def setItem_def cleared_def
        remote_ready_def storageGet_ready healthy_env_def scenario_B_def log_event_def)
  ultimately show ?thesis by simp
qed

lemma remove_local_failure:
  "fst (enhancedRemoveItem (healthy_env\<lparr>removeItem_throws := True\<rparr>) ''progress'' scenario_A)
     = Returned JUndefined \<and>
   lstore (snd (enhancedRemoveItem (healthy_env\<lparr>removeItem_throws := True\<rparr>) ''progress''
     scenario_A)) ''progress'' = Some ''{level:1}''"
  by (simp add: enhancedRemoveItem_throws healthy_env_def scenario_A_def)

section \<open>The result of a write\<close>

text \<open>
  C6, amended. \<open>set(key, value)\<close> always resolves, and always with \<open>undefined\<close>, which
  is neither a boolean nor truthy: the function returns no success status. When the
  platform fails on the write (or \<open>vkBridge\<close> is missing) and the local write does not
  throw, \<open>localStorage\<close> holds the value afterwards, and the cache and the platform are
  unchanged.
\<close>

theorem set_resolves_undefined:
  "fst (enhancedSetItem e k v w) = Returned JUndefined \<and>
   \<not> is_boolean JUndefined \<and> \<not> truthy JUndefined \<and>
   (\<not> setItem_throws e \<and> (\<not> vkBridge_defined e \<or> storageSet_rejects e) \<longrightarrow>
      lstore (snd (enhancedSetItem e k v w)) k = Some v \<and>
      vkStorageCache (snd (enhancedSetItem e k v w)) = vkStorageCache w \<and>
      vk_store (snd (enhancedSetItem e k v w)) = vk_store w)"
proof (cases "remote_ready w")
  case True
  then show ?thesis by (simp add: enhancedSetItem_ready)
next
  case False
  then show ?thesis by (simp add: enhancedSetItem_not_ready setItem_def)
qed

theorem set_resolves_undefined_witness:
  "fst (enhancedSetItem remote_down_env ''k'' ''v'' scenario_A) = Returned JUndefined \<and>
   lstore (snd (enhancedSetItem remote_down_env ''k'' ''v'' scenario_A)) ''k'' = Some ''v'' \<and>
   vk_store (snd (enhancedSetItem remote_down_env ''k'' ''v'' scenario_A)) = vk_store scenario_A"
proof -
  have "\<not> setItem_throws remote_down_env \<and>
      (\<not> vkBridge_defined remote_down_env \<or> storageSet_rejects remote_down_env)"
    by (simp add: remote_down_env_def healthy_env_def)
  with set_resolves_undefined [of remote_down_env "''k''" "''v''" scenario_A]
  show ?thesis by blast
qed

text \<open>
  C6 as stated fails in its own scenario C: with a platform that rejects every message,
  \<open>set("k", "v")\<close> resolves with \<open>undefined\<close>, not with a boolean or a truthy value.
\<close>

theorem set_result_counterexample:
  "fst (enhancedSetItem remote_down_env ''k'' ''v'' scenario_A) = Returned JUndefined \<and>
   \<not> is_boolean JUndefined \<and> \<not> truthy JUndefined"
  by (simp add: enhancedSetItem_def enhancedSetItem_try_def setItem_def remote_ready_def
      storageSet_ready remote_down_env_def healthy_env_def scenario_A_def log_event_def)

section \<open>The cache\<close>

lemma cache_after_get:
  "vkStorageCache (snd (enhancedGetItem e k w)) =
     (case fst (storageGet e k w) of
        Returned (Some v) \<Rightarrow>
          if remote_ready w \<and> v \<noteq> [] then (vkStorageCache w)(k \<mapsto> v) else vkStorageCache w
      | _ \<Rightarrow> vkStorageCache w)"
proof (cases "remote_ready w")
  case False
  then show ?thesis
    by (simp add: enhancedGetItem_not_ready split: completion.splits option.splits)
next
  case True
  then have init: "initialized w" by (simp add: remote_ready_def)
  note keep = storageGet_fields(2,5) [OF init, of e k]
  from storageGet_outcome [of e k w] show ?thesis
  proof (elim disjE exE conjE)
    fix v assume v: "fst (storageGet e k w) = Returned (Some v)" "v \<noteq> []"
    from enhancedGetItem_ready_value [OF True v] True v show ?thesis
      by (simp add: getItem_def)
  next
    assume n: "fst (storageGet e k w) = Returned None"
    then have "fst (storageGet e k w) = Returned None \<or> fst (storageGet e k w) = Returned (Some [])"
      by simp
    from enhancedGetItem_ready_fallback [OF True this] n keep show ?thesis
      by (simp add: storageSet_fields(2) split: option.splits)
  next
    assume n: "fst (storageGet e k w) = Returned (Some [])"
    then have "fst (storageGet e k w) = Returned None \<or> fst (storageGet e k w) = Returned (Some [])"
      by simp
    from enhancedGetItem_ready_fallback [OF True this] n keep show ?thesis
      by (simp add: storageSet_fields(2) split: option.splits)
  qed
qed

lemma cache_after_set:
  "vkStorageCache (snd (enhancedSetItem e k v w)) =
     (if \<not> setItem_throws e \<and> remote_ready w \<and> fst (storageSet e k v w) = Returned True
      then (vkStorageCache w)(k \<mapsto> v) else vkStorageCache w)"
proof (cases "remote_ready w")
  case True
  then have "initialized w" by (simp add: remote_ready_def)
  with True show ?thesis by (simp add: enhancedSetItem_ready storageSet_ready)
next
  case False
  then show ?thesis by (simp add: enhancedSetItem_not_ready setItem_def)
qed

lemma cache_after_remove:
  "vkStorageCache (snd (enhancedRemoveItem e k w)) =
     (if removeItem_throws e then vkStorageCache w else (vkStorageCache w)(k := None))"
proof (cases "removeItem_throws e")
  case True
  then show ?thesis by (simp add: enhancedRemoveItem_throws)
next
  case local: False
  show ?thesis
  proof (cases "remote_ready w")
    case True
    then have "initialized (cleared k w)"
      by (simp add: remote_ready_def)
    from storageSet_fields(2) [OF this] local True show ?thesis
      by (simp add: enhancedRemoveItem_ready)
  next
    case False
    with local show ?thesis by (simp add: enhancedRemoveItem_not_ready)
  qed
qed

text \<open>
  C9, amended. \<open>get(k)\<close> stores a cache entry for \<open>k\<close> exactly when the wrapper is ready
  and its read yields a non-empty value; \<open>set(k, v)\<close> stores one exactly when the local
  write does not throw, the wrapper is ready and its write reports success; \<open>remove(k)\<close>
  deletes the entry for \<open>k\<close>, except that it leaves the cache as it was when
  \<open>localStorage.removeItem\<close> throws. Nothing else changes the cache: a read or a write
  made while the wrapper is not ready leaves it as it was.
\<close>

theorem cache_lifecycle:
  "vkStorageCache (snd (enhancedGetItem e k w)) =
     (case fst (storageGet e k w) of
        Returned (Some v) \<Rightarrow>
          if remote_ready w \<and> v \<noteq> [] then (vkStorageCache w)(k \<mapsto> v) else vkStorageCache w
      | _ \<Rightarrow> vkStorageCache w) \<and>
   vkStorageCache (snd (enhancedSetItem e k v w)) =
     (if \<not> setItem_throws e \<and> remote_ready w \<and> fst (storageSet e k v w) = Returned True
      then (vkStorageCache w)(k \<mapsto> v) else vkStorageCache w) \<and>
   vkStorageCache (snd (enhancedRemoveItem e k w)) =
     (if removeItem_throws e then vkStorageCache w else (vkStorageCache w)(k := None)) \<and>
   (\<not> remote_ready w \<longrightarrow>
      vkStorageCache (snd (enhancedGetItem e k w)) = vkStorageCache w \<and>
      vkStorageCache (snd (enhancedSetItem e k v w)) = vkStorageCache w)"
proof -
  have "\<not> remote_ready w \<longrightarrow>
      vkStorageCache (snd (enhancedGetItem e k w)) = vkStorageCache w \<and>
      vkStorageCache (snd (enhancedSetItem e k v w)) = vkStorageCache w"
    by (simp add: enhancedGetItem_not_ready enhancedSetItem_not_ready setItem_def)
  with cache_after_get [of e k w] cache_after_set [of e k v w] cache_after_remove [of e k w]
  show ?thesis by blast
qed

theorem cache_lifecycle_witness:
  "vkStorageCache (snd (enhancedGetItem healthy_env ''progress'' scenario_B)) = Map.empty \<and>
   vkStorageCache (snd (enhancedSetItem healthy_env ''progress'' ''{level:2}'' scenario_B))
     = Map.empty"
proof -
  have not_ready: "\<not> remote_ready scenario_B"
    by (simp add: scenario_B_def remote_ready_def)
  have empty: "vkStorageCache scenario_B = Map.empty"
    by (simp add: scenario_B_def)
  from cache_lifecycle [of healthy_env "''progress''" scenario_B "''{level:2}''"] not_ready
  have "vkStorageCache (snd (enhancedGetItem healthy_env ''progress'' scenario_B))
          = vkStorageCache scenario_B \<and>
        vkStorageCache (snd (enhancedSetItem healthy_env ''progress'' ''{level:2}'' scenario_B))
          = vkStorageCache scenario_B"
    by blast
  with empty show ?thesis by simp
qed

text \<open>
  C9 as stated fails for local-only calls: in scenario B, \<open>get("progress")\<close> returns the
  local value and \<open>set("progress", "{level:2}")\<close> stores it locally, and neither creates
  a cache entry.
\<close>

theorem cache_local_only_counterexample:
  "fst (enhancedGetItem healthy_env ''progress'' scenario_B) = Returned (Some ''{level:1}'') \<and>
   vkStorageCache (snd (enhancedGetItem healthy_env ''progress'' scenario_B)) ''progress'' = None \<and>
   lstore (snd (enhancedSetItem healthy_env ''progress'' ''{level:2}'' scenario_B)) ''progress''
     = Some ''{level:2}'' \<and>
   vkStorageCache (snd (enhancedSetItem healthy_env ''progress'' ''{level:2}'' scenario_B))
     ''progress'' = None"
  by (simp add: enhancedGetItem_def enhancedGetItem_try_def enhancedGetItem_local_def
      enhancedSetItem_def enhancedSetItem_try_def getItem_def setItem_def remote_ready_def
      healthy_env_def scenario_B_def log_event_def)


section \<open>The handshake\<close>

text \<open>
  \<open>init\<close> cut at its \<open>await\<close> is \<open>init\<close>: the two halves compose to the method.
\<close>

lemma init_cut:
  "init e w =
     (case init_begin e w of
        (Some b, w1) \<Rightarrow> (Returned b, w1)
      | (None, w1) \<Rightarrow>
          (case init_resume (init_rejects e) w1 of (b, w2) \<Rightarrow> (Returned b, w2)))"
  by (simp add: init_def init_begin_def init_resume_def send_VKWebAppInit_def log_event_def)

lemma init_times_ready:
  "initialized w \<Longrightarrow> init_times n e w = (replicate n (Returned True), w)"
  by (induction n) (simp_all add: init_def)

lemma init_failing:
  "\<not> initialized w \<Longrightarrow> vkBridge_defined e \<Longrightarrow> init_rejects e \<Longrightarrow>
   init e w = (Returned False, log_event SendInit w)"
  by (simp add: init_def send_VKWebAppInit_def)

lemma init_succeeding:
  "\<not> initialized w \<Longrightarrow> vkBridge_defined e \<Longrightarrow> \<not> init_rejects e \<Longrightarrow>
   init e w = (Returned True, (log_event SendInit w)\<lparr>initialized := True\<rparr>)"
  by (simp add: init_def send_VKWebAppInit_def)

lemma init_times_failing:
  "\<not> initialized w \<Longrightarrow> vkBridge_defined e \<Longrightarrow> init_rejects e \<Longrightarrow>
   init_times n e w = (replicate n (Returned False), w\<lparr>trace := trace w @ replicate n SendInit\<rparr>)"
proof (induction n arbitrary: w)
  case 0
  then show ?case by simp
next
  case (Suc n)
  from Suc.prems have step: "init e w = (Returned False, log_event SendInit w)"
    by (rule init_failing)
  have "\<not> initialized (log_event SendInit w)"
    using Suc.prems(1) by (simp add: log_event_def)
  from Suc.IH [OF this Suc.prems(2,3)] step show ?case
    by (simp add: log_event_def)
qed

lemma init_times_succeeding:
  assumes "\<not> initialized w" "vkBridge_defined e" "\<not> init_rejects e"
  shows "init_times (Suc n) e w =
     (replicate (Suc n) (Returned True), (log_event SendInit w)\<lparr>initialized := True\<rparr>)"
  using init_succeeding [OF assms]
    init_times_ready [of "(log_event SendInit w)\<lparr>initialized := True\<rparr>" n e]
  by simp

lemma storage_retries_handshake:
  assumes "\<not> initialized w" "vkBridge_defined e" "init_rejects e"
  shows "storageGet e k w = (Returned None, log_event SendInit w) \<and>
         storageSet e k v w = (Returned False, log_event SendInit w)"
  using assms init_failing [OF assms]
  by (simp add: storageGet_def storageSet_def lazy_init_def log_event_def)

lemma init_overlapped_sends_twice:
  assumes "\<not> initialized w" "vkBridge_defined e"
  shows "fst (init_overlapped e rejected1 rejected2 second_first w)
           = (\<not> rejected1, \<not> rejected2) \<and>
         trace (snd (init_overlapped e rejected1 rejected2 second_first w))
           = trace w @ [SendInit, SendInit] \<and>
         initialized (snd (init_overlapped e rejected1 rejected2 second_first w))
           = (\<not> rejected1 \<or> \<not> rejected2)"
  using assms
  by (simp add: init_overlapped_def init_begin_def init_settle_def init_resume_def
      log_event_def)

text \<open>
  With the flag set, or without \<open>vkBridge\<close>, overlapping calls send nothing and agree.
\<close>

lemma init_overlapped_settled:
  "initialized w \<Longrightarrow>
     init_overlapped e rejected1 rejected2 second_first w = ((True, True), w)"
  "\<not> initialized w \<Longrightarrow> \<not> vkBridge_defined e \<Longrightarrow>
     init_overlapped e rejected1 rejected2 second_first w = ((False, False), w)"
  by (simp_all add: init_overlapped_def init_begin_def init_settle_def)

text \<open>
  C7, amended. Only success is memoized. Once the flag is set, \<open>init\<close> returns
  \<open>true\<close> without contacting the platform, so calls made one after the other perform
  exactly one platform initialization when the first handshake succeeds. A failed
  handshake is retried: every later \<open>init\<close>, and every \<open>storageGet\<close> or \<open>storageSet\<close>
  of the wrapper made while the flag is not set, sends \<open>VKWebAppInit\<close> again. Two
  calls issued in the same turn, with the flag not set, both send it; each observes
  the outcome of its own message, whichever settles first, so the two results are
  equal only when the platform treats both messages alike, and the flag is set
  afterwards exactly when at least one of the two messages was answered.
\<close>

theorem init_memoizes_success_only:
  "(initialized w \<longrightarrow> init e w = (Returned True, w)) \<and>
   (\<not> initialized w \<and> vkBridge_defined e \<and> \<not> init_rejects e \<longrightarrow>
      init_times (Suc n) e w =
        (replicate (Suc n) (Returned True), (log_event SendInit w)\<lparr>initialized := True\<rparr>)) \<and>
   (\<not> initialized w \<and> vkBridge_defined e \<and> init_rejects e \<longrightarrow>
      init_times n e w =
        (replicate n (Returned False), w\<lparr>trace := trace w @ replicate n SendInit\<rparr>) \<and>
      storageGet e k w = (Returned None, log_event SendInit w) \<and>
      storageSet e k v w = (Returned False, log_event SendInit w)) \<and>
   (\<not> initialized w \<and> vkBridge_defined e \<longrightarrow>
      fst (init_overlapped e rejected1 rejected2 second_first w)
        = (\<not> rejected1, \<not> rejected2) \<and>
      trace (snd (init_overlapped e rejected1 rejected2 second_first w))
        = trace w @ [SendInit, SendInit] \<and>
      initialized (snd (init_overlapped e rejected1 rejected2 second_first w))
        = (\<not> rejected1 \<or> \<not> rejected2))"
proof -
  have "initialized w \<longrightarrow> init e w = (Returned True, w)"
    by (simp add: init_def)
  with init_times_succeeding [of w e n] init_times_failing [of w e n]
    storage_retries_handshake [of w e k v]
    init_overlapped_sends_twice [of w e rejected1 rejected2 second_first]
  show ?thesis by blast
qed

theorem init_memoizes_success_only_witness:
  "init_times (Suc 2) healthy_env scenario_B =
     ([Returned True, Returned True, Returned True],
      (log_event SendInit scenario_B)\<lparr>initialized := True\<rparr>) \<and>
   init healthy_env scenario_A = (Returned True, scenario_A) \<and>
   fst (init_overlapped healthy_env False True False scenario_B) = (True, False) \<and>
   initialized (snd (init_overlapped healthy_env False True False scenario_B))"
proof -
  have "\<not> initialized scenario_B \<and> vkBridge_defined healthy_env \<and> \<not> init_rejects healthy_env"
    and "\<not> initialized scenario_B \<and> vkBridge_defined healthy_env"
    and "initialized scenario_A"
    by (simp_all add: scenario_A_def scenario_B_def healthy_env_def)
  with init_memoizes_success_only [of scenario_B healthy_env 2 _ _ False True False]
    init_memoizes_success_only [of scenario_A healthy_env]
  show ?thesis by (simp add: numeral_2_eq_2)
qed

text \<open>
  C7 as stated fails when the platform rejects the handshake: two calls of \<open>init\<close>, one
  after the other, both return \<open>false\<close> and the platform is contacted twice.
\<close>

theorem init_retry_counterexample:
  "fst (init_times 2 (healthy_env\<lparr>init_rejects := True\<rparr>) scenario_B)
     = [Returned False, Returned False] \<and>
   trace (snd (init_times 2 (healthy_env\<lparr>init_rejects := True\<rparr>) scenario_B))
     = [SendInit, SendInit]"
  by (simp add: numeral_2_eq_2 init_def send_VKWebAppInit_def log_event_def healthy_env_def
      scenario_B_def)

text \<open>
  Nor do overlapping calls observe one outcome: when the platform answers the first
  message and rejects the second, the first call returns \<open>true\<close> and the second
  \<open>false\<close>, and the platform has been contacted twice.
\<close>

lemma init_overlapped_outcomes_differ:
  "fst (init_overlapped healthy_env False True False scenario_B) = (True, False) \<and>
   trace (snd (init_overlapped healthy_env False True False scenario_B)) = [SendInit, SendInit]"
  by (simp add: init_overlapped_def init_begin_def init_settle_def init_resume_def
      log_event_def healthy_env_def scenario_B_def)

section \<open>Waiting\<close>

lemma poll_bound: "attempts \<le> maxAttempts \<Longrightarrow> poll flag attempts \<le> maxAttempts"
proof (induction flag attempts rule: poll.induct)
  case (1 flag attempts)
  show ?case
  proof (cases "\<not> flag attempts \<and> attempts < maxAttempts")
    case True
    with "1.IH" have "poll flag (Suc attempts) \<le> maxAttempts" by simp
    moreover from True have "poll flag attempts = poll flag (Suc attempts)"
      by (subst poll.simps) auto
    ultimately show ?thesis by simp
  next
    case False
    then have "poll flag attempts = attempts"
      by (subst poll.simps) auto
    with "1.prems" show ?thesis by simp
  qed
qed

lemma initialize_waits:
  "\<exists>n. n \<le> maxAttempts \<and> trace (initialize ready w) = trace w @ replicate n (Sleep 100)"
proof (cases "\<not> isInitialized w \<and> wrapper_present w")
  case True
  have "poll (\<lambda>n. initialized w \<or> ready n) 0 \<le> maxAttempts"
    by (rule poll_bound) simp
  with True show ?thesis
    by (auto simp: initialize_def Let_def)
next
  case False
  then have "trace (initialize ready w) = trace w @ replicate 0 (Sleep 100)"
    by (auto simp: initialize_def Let_def)
  then show ?thesis by blast
qed

lemma initialize_once: "initialize ready' (initialize ready w) = initialize ready w"
  by (simp add: initialize_def Let_def)

lemma get_no_handshake:
  "filter handshake_event (trace (snd (enhancedGetItem e k w))) = filter handshake_event (trace w)"
proof (cases "remote_ready w")
  case False
  then show ?thesis by (simp add: enhancedGetItem_not_ready)
next
  case True
  then have init: "initialized w" by (simp add: remote_ready_def)
  note keep = storageGet_fields(5,6) [OF init, of e k]
  have wrote: "\<And>v. filter handshake_event
        (trace (snd (storageSet e k v (log_event (LocalGet k) (snd (storageGet e k w))))))
      = filter handshake_event (trace w)"
    using keep by (simp add: storageSet_fields(4))
  from storageGet_outcome [of e k w] show ?thesis
  proof (elim disjE exE conjE)
    fix v assume v: "fst (storageGet e k w) = Returned (Some v)" "v \<noteq> []"
    from enhancedGetItem_ready_value [OF True v] keep show ?thesis
      by (simp add: getItem_def)
  next
    assume "fst (storageGet e k w) = Returned None"
    then have "fst (storageGet e k w) = Returned None \<or> fst (storageGet e k w) = Returned (Some [])"
      by simp
    from enhancedGetItem_ready_fallback [OF True this] keep wrote show ?thesis
      by (simp split: option.splits)
  next
    assume "fst (storageGet e k w) = Returned (Some [])"
    then have "fst (storageGet e k w) = Returned None \<or> fst (storageGet e k w) = Returned (Some [])"
      by simp
    from enhancedGetItem_ready_fallback [OF True this] keep wrote show ?thesis
      by (simp split: option.splits)
  qed
qed

lemma set_no_handshake:
  "filter handshake_event (trace (snd (enhancedSetItem e k v w))) = filter handshake_event (trace w)"
proof (cases "remote_ready w")
  case True
  then show ?thesis by (simp add: enhancedSetItem_ready)
next
  case False
  then show ?thesis by (simp add: enhancedSetItem_not_ready setItem_def)
qed

lemma remove_no_handshake:
  "filter handshake_event (trace (snd (enhancedRemoveItem e k w))) = filter handshake_event (trace w)"
proof (cases "removeItem_throws e")
  case True
  then show ?thesis by (simp add: enhancedRemoveItem_throws)
next
  case local: False
  show ?thesis
  proof (cases "remote_ready w")
    case True
    then have "initialized (cleared k w)"
      by (simp add: remote_ready_def)
    from storageSet_fields(4) [OF this] local True show ?thesis
      by (simp add: enhancedRemoveItem_ready)
  next
    case False
    with local show ?thesis
      by (simp add: enhancedRemoveItem_not_ready)
  qed
qed

lemma not_ready_local_only:
  assumes "\<not> remote_ready w"
  shows "trace (snd (enhancedGetItem e k w)) =
           trace w @ (if getItem_throws e then [LocalGet k, LocalGet k] else [LocalGet k]) \<and>
         trace (snd (enhancedSetItem e k v w)) = trace w @ [LocalSet k v] \<and>
         trace (snd (enhancedRemoveItem e k w)) = trace w @ [LocalRemove k] \<and>
         (fst (getItem e k w) = Returned (Some v) \<longrightarrow>
            fst (enhancedGetItem e k w) = Returned (Some v))"
proof -
  have "trace (snd (enhancedRemoveItem e k w)) = trace w @ [LocalRemove k]"
    using assms
    by (cases "removeItem_throws e")
      (simp_all add: enhancedRemoveItem_throws enhancedRemoveItem_not_ready)
  then show ?thesis
    by (simp add: enhancedGetItem_not_ready [OF assms] enhancedSetItem_not_ready [OF assms]
        getItem_def setItem_def)
qed

text \<open>
  C8. The start-up poll makes at most \<open>maxAttempts = 50\<close> waits of 100 ms, whatever
  the handshake does, and a second \<open>initialize\<close> does nothing. \<open>get\<close>, \<open>set\<close> and
  \<open>remove\<close> never wait and never send the handshake message. While the wrapper is not
  ready they make local calls only, and \<open>get\<close> returns the value that the local read
  returns.
\<close>

theorem bounded_waiting:
  "maxAttempts = 50 \<and>
   (\<exists>n. n \<le> maxAttempts \<and> trace (initialize ready w) = trace w @ replicate n (Sleep 100)) \<and>
   initialize ready' (initialize ready w) = initialize ready w \<and>
   filter handshake_event (trace (snd (enhancedGetItem e k w))) = filter handshake_event (trace w) \<and>
   filter handshake_event (trace (snd (enhancedSetItem e k v w))) = filter handshake_event (trace w) \<and>
   filter handshake_event (trace (snd (enhancedRemoveItem e k w))) = filter handshake_event (trace w) \<and>
   (\<not> remote_ready w \<longrightarrow>
      trace (snd (enhancedGetItem e k w)) =
        trace w @ (if getItem_throws e then [LocalGet k, LocalGet k] else [LocalGet k]) \<and>
      trace (snd (enhancedSetItem e k v w)) = trace w @ [LocalSet k v] \<and>
      trace (snd (enhancedRemoveItem e k w)) = trace w @ [LocalRemove k] \<and>
      (fst (getItem e k w) = Returned (Some v) \<longrightarrow>
         fst (enhancedGetItem e k w) = Returned (Some v)))"
  using initialize_waits [of ready w] initialize_once [of ready' ready w]
    get_no_handshake [of e k w] set_no_handshake [of e k v w] remove_no_handshake [of e k w]
    not_ready_local_only [of w e k v]
  by (simp add: maxAttempts_def)

theorem bounded_waiting_witness:
  "fst (enhancedGetItem healthy_env ''progress'' (initialize never_ready scenario_B))
     = Returned (Some ''{level:1}'') \<and>
   trace (snd (enhancedGetItem healthy_env ''progress'' (initialize never_ready scenario_B)))
     = trace (initialize never_ready scenario_B) @ [LocalGet ''progress'']"
proof -
  have not_ready: "\<not> remote_ready (initialize never_ready scenario_B)"
    by (simp add: initialize_def Let_def scenario_B_def remote_ready_def never_ready_def)
  have loc: "fst (getItem healthy_env ''progress'' (initialize never_ready scenario_B))
      = Returned (Some ''{level:1}'')"
    by (simp add: initialize_def Let_def scenario_B_def getItem_def healthy_env_def)
  have "\<not> getItem_throws healthy_env" by (simp add: healthy_env_def)
  with bounded_waiting [of never_ready "initialize never_ready scenario_B" never_ready
      healthy_env "''progress''" "''{level:1}''"] not_ready loc
  show ?thesis by simp
qed




section \<open>The next level\<close>

lemma strict_eq_imp_eq: "strict_eq a b \<Longrightarrow> a = b \<and> a \<noteq> JPrim PNaN"
  by (induction a b rule: strict_eq.induct) auto

lemma strict_eq_refl: "x \<noteq> JPrim PNaN \<Longrightarrow> strict_eq x x"
proof (cases x)
  case (JPrim p)
  assume "x \<noteq> JPrim PNaN"
  with JPrim show ?thesis by (cases p) auto
qed auto

lemma strict_eq_iff: "x \<noteq> JPrim PNaN \<Longrightarrow> strict_eq y x = (y = x)"
  using strict_eq_imp_eq [of y x] strict_eq_refl [of x] by auto

lemma strict_eq_nan [simp]: "\<not> strict_eq y (JPrim PNaN)"
  using strict_eq_imp_eq [of y "JPrim PNaN"] by auto

text \<open>
  \<open>indexOf\<close> returns the first index that holds the value, and \<open>-1\<close> when no index
  does or the value is \<open>NaN\<close>.
\<close>

lemma indexOf_from_first:
  "x \<noteq> JPrim PNaN \<Longrightarrow>
   indexOf_from i xs x = (if x \<in> set xs then int (i + first_index xs x) else - 1)"
  by (induction xs arbitrary: i) (auto simp: first_index_def strict_eq_iff)

lemma indexOf_first:
  "x \<noteq> JPrim PNaN \<Longrightarrow>
   indexOf xs x = (if x \<in> set xs then int (first_index xs x) else - 1)"
  by (simp add: indexOf_def indexOf_from_first)

lemma indexOf_nan: "indexOf xs (JPrim PNaN) = - 1"
proof -
  have "indexOf_from i xs (JPrim PNaN) = - 1" for i
    by (induction xs arbitrary: i) auto
  then show ?thesis by (simp add: indexOf_def)
qed

lemma first_index_mem:
  "x \<in> set xs \<Longrightarrow> first_index xs x < length xs \<and> xs ! first_index xs x = x"
  by (induction xs) (auto simp: first_index_def)

lemma first_index_le: "c < length xs \<Longrightarrow> first_index xs (xs ! c) \<le> c"
proof (induction xs arbitrary: c)
  case Nil
  then show ?case by simp
next
  case (Cons y ys)
  show ?case
  proof (cases c)
    case 0
    then show ?thesis by (simp add: first_index_def)
  next
    case (Suc d)
    with Cons.prems have "d < length ys" by simp
    from Cons.IH [OF this] Suc show ?thesis by (simp add: first_index_def)
  qed
qed

lemma first_index_distinct:
  assumes "distinct xs" and "c < length xs"
  shows "first_index xs (xs ! c) = c"
proof -
  from assms(2) have "xs ! c \<in> set xs" by simp
  from first_index_mem [OF this]
  have "first_index xs (xs ! c) < length xs" "xs ! first_index xs (xs ! c) = xs ! c"
    by simp_all
  with assms show ?thesis by (simp add: nth_eq_iff_index_eq)
qed

lemma first_index_split:
  assumes "x \<in> set xs"
  shows "xs = take (first_index xs x) xs @ x # drop (Suc (first_index xs x)) xs \<and>
         x \<notin> set (take (first_index xs x) xs)"
proof -
  from first_index_mem [OF assms] have "first_index xs x < length xs" "xs ! first_index xs x = x"
    by simp_all
  from id_take_nth_drop [OF this(1)] this(2)
  have "xs = take (first_index xs x) xs @ x # drop (Suc (first_index xs x)) xs"
    by simp
  moreover have "take (first_index xs x) xs = takeWhile (\<lambda>y. y \<noteq> x) xs"
    unfolding first_index_def by (rule takeWhile_eq_take [symmetric])
  then have "x \<notin> set (take (first_index xs x) xs)"
    by (auto dest: set_takeWhileD)
  ultimately show ?thesis by blast
qed


lemma first_index_append:
  "x \<notin> set ys \<Longrightarrow> first_index (ys @ x # zs) x = length ys"
  by (induction ys) (auto simp: first_index_def)

text \<open>The filter keeps the elements with a falsy \<open>isCustom\<close>, in order.\<close>

lemma filter_nonCustom_eq:
  "filter_nonCustom h xs = Returned ys \<Longrightarrow> ys = filter (non_custom h) xs"
proof (induction xs arbitrary: ys)
  case Nil
  then show ?case by simp
next
  case (Cons x xs)
  then show ?case
    by (auto simp: non_custom_def split: completion.splits if_splits)
qed

lemma non_custom_defined: "non_custom h g \<Longrightarrow> g \<noteq> JUndefined"
  by (auto simp: non_custom_def)

lemma array_get_defined:
  "array_get xs p \<noteq> JUndefined \<Longrightarrow>
   \<exists>c. p = PInt (int c) \<and> c < length xs \<and> array_get xs p = xs ! c"
proof (cases p)
  case (PInt i)
  assume "array_get xs p \<noteq> JUndefined"
  with PInt have "0 \<le> i" "i < int (length xs)" "array_get xs p = xs ! nat i"
    by (simp_all split: if_splits)
  with PInt have "p = PInt (int (nat i)) \<and> nat i < length xs \<and> array_get xs p = xs ! nat i"
    by simp
  then show ?thesis by blast
qed simp_all

text \<open>
  Where an element with a falsy \<open>isCustom\<close> and its successor sit in the filtered
  array.
\<close>

lemma drop_as_map: "drop n xs = map ((!) xs) [n..<length xs]"
  by (simp add: list_eq_iff_nth_eq)

lemma hd_filter_find:
  "filter P (map f js) \<noteq> [] \<Longrightarrow>
   \<exists>q. find (\<lambda>j. P (f j)) js = Some q \<and> hd (filter P (map f js)) = f q"
  by (induction js) auto

lemma next_non_custom_hd:
  assumes "filter (non_custom h) (drop (Suc p) groups) \<noteq> []"
  shows "\<exists>q. next_non_custom h groups p = Some q \<and>
     hd (filter (non_custom h) (drop (Suc p) groups)) = groups ! q"
  using hd_filter_find [of "non_custom h" "(!) groups" "[Suc p..<length groups]"] assms
  by (simp add: next_non_custom_def drop_as_map [symmetric])

lemma next_non_custom_range:
  "next_non_custom h groups p = Some q \<Longrightarrow>
   p < q \<and> q < length groups \<and> non_custom h (groups ! q)"
  by (auto simp: next_non_custom_def find_Some_iff)

lemma filtered_position:
  assumes mem: "x \<in> set xs" and keep: "P x"
  shows "first_index (filter P xs) x = length (filter P (take (first_index xs x) xs))"
    and "filter P xs =
      filter P (take (first_index xs x) xs) @ x # filter P (drop (Suc (first_index xs x)) xs)"
proof -
  let ?p = "first_index xs x"
  from first_index_split [OF mem]
  have split: "xs = take ?p xs @ x # drop (Suc ?p) xs" and fresh: "x \<notin> set (take ?p xs)"
    by simp_all
  have "filter P xs = filter P (take ?p xs @ x # drop (Suc ?p) xs)"
    using split by simp
  with keep show eq: "filter P xs = filter P (take ?p xs) @ x # filter P (drop (Suc ?p) xs)"
    by simp
  from fresh have "x \<notin> set (filter P (take ?p xs))" by simp
  from first_index_append [OF this] eq
  show "first_index (filter P xs) x = length (filter P (take ?p xs))"
    by simp
qed


text \<open>\<open>currentLevel + 1\<close> is exact below \<open>2\<^sup>5\<^sup>3\<close> and positive on a non-negative level.\<close>

lemma js_plus_one_exact: "- (2 ^ 53) \<le> n \<Longrightarrow> n < 2 ^ 53 \<Longrightarrow> js_plus_one n = n + 1"
  by (simp add: js_plus_one_def)

lemma js_plus_one_pos: "0 \<le> n \<Longrightarrow> 0 < js_plus_one n"
  by (simp add: js_plus_one_def)

lemma prop_length_kind:
  "prop_length h v = Returned p \<Longrightarrow> p = PUndefined \<or> (\<exists>n. p = PInt n)"
  by (induction h v rule: prop_length.induct) (auto split: jsobj.splits)

lemma next_in_group_range:
  assumes "prop_levels h g = Returned lv" and "prop_length h lv = Returned len" and "0 \<le> n"
  shows "next_in_group (PInt n) len =
     (if level_in_range h g (js_plus_one n) then Some (js_plus_one n) else None)"
  using assms prop_length_kind [OF assms(2)] js_plus_one_pos [OF assms(3)]
  by (auto simp: next_in_group_def plus_one_def js_less_def level_in_range_def
      levels_length_def)

lemma calculateNextLevel_never_throws:
  "\<exists>res. calculateNextLevel h cl clg lg = Returned res"
  by (simp add: calculateNextLevel_def split: completion.splits)

lemma calculateNextLevel_shape:
  assumes res: "calculateNextLevel h (PInt n) clg lg = Returned (Some r)"
    and n: "0 \<le> n"
  shows "\<exists>groups c. as_array h lg = Some groups \<and> clg = PInt (int c) \<and> c < length groups \<and>
     non_custom h (groups ! c) \<and> groups ! c \<noteq> JPrim PNaN \<and>
     ((nextLevel r = js_plus_one n \<and>
       nextLevelGroup r = int (first_index groups (groups ! c)) \<and>
       level_in_range h (groups ! c) (nextLevel r)) \<or>
      (nextLevel r = 0 \<and> \<not> level_in_range h (groups ! c) (js_plus_one n) \<and>
       (\<exists>q. next_non_custom h groups (first_index groups (groups ! c)) = Some q \<and>
            nextLevelGroup r =
              (if groups ! q = JPrim PNaN then - 1
               else int (first_index groups (groups ! q))))))"
proof -
  from res have body: "calculateNextLevel_try h (PInt n) clg lg = Returned (Some r)"
    by (simp add: calculateNextLevel_def split: completion.splits)
  from body obtain groups where groups: "as_array h lg = Some groups"
    by (auto simp: calculateNextLevel_try_def split: if_splits option.splits)
  from body groups obtain ncg where ncg: "filter_nonCustom h groups = Returned ncg"
    by (auto simp: calculateNextLevel_try_def split: if_splits completion.splits)
  note filtered = filter_nonCustom_eq [OF ncg]
  define cur where "cur = array_get groups clg"
  define i where "i = indexOf ncg cur"
  from body groups ncg have i_found: "i \<noteq> - 1"
    by (auto simp: calculateNextLevel_try_def i_def cur_def Let_def split: if_splits)
  have cur_not_nan: "cur \<noteq> JPrim PNaN"
    using i_found indexOf_nan [of ncg] by (auto simp: i_def)
  from i_found indexOf_first [OF cur_not_nan, of ncg]
  have cur_in: "cur \<in> set ncg" and i_eq: "i = int (first_index ncg cur)"
    by (simp_all add: i_def split: if_splits)
  from cur_in filtered have cur_groups: "cur \<in> set groups" and cur_nc: "non_custom h cur"
    by simp_all
  from array_get_defined [of groups clg] non_custom_defined [OF cur_nc]
  obtain c where c: "clg = PInt (int c)" "c < length groups" "cur = groups ! c"
    by (auto simp: cur_def)
  define p where "p = first_index groups cur"
  from filtered_position [of cur groups "non_custom h", OF cur_groups cur_nc] filtered
  have pos: "first_index ncg cur = length (filter (non_custom h) (take p groups))"
    and parts: "ncg = filter (non_custom h) (take p groups) @
        cur # filter (non_custom h) (drop (Suc p) groups)"
    by (simp_all add: p_def)
  from pos parts have at_i: "ncg ! nat i = cur"
    by (simp add: i_eq nth_append)
  from body groups ncg i_found at_i obtain lv len where
    lv: "prop_levels h cur = Returned lv" and len: "prop_length h lv = Returned len"
    by (auto simp: calculateNextLevel_try_def i_def [symmetric] cur_def [symmetric] Let_def
        split: if_splits completion.splits)
  note test = next_in_group_range [OF lv len n]
  have first_cur: "indexOf groups cur = int p"
    using indexOf_first [OF cur_not_nan, of groups] cur_groups by (simp add: p_def)
  show ?thesis
  proof (cases "level_in_range h cur (js_plus_one n)")
    case True
    with test body groups ncg i_found lv len at_i
    have "nextLevel r = js_plus_one n" "nextLevelGroup r = indexOf groups cur"
      by (auto simp: calculateNextLevel_try_def i_def [symmetric] cur_def [symmetric] Let_def
          split: if_splits)
    with True first_cur groups c cur_nc cur_not_nan show ?thesis
      by (auto simp: p_def)
  next
    case False
    with test body groups ncg i_found lv len at_i
    have next_exists: "i + 1 < int (length ncg)"
      and r: "nextLevel r = 0" "nextLevelGroup r = indexOf groups (ncg ! nat (i + 1))"
      by (auto simp: calculateNextLevel_try_def i_def [symmetric] cur_def [symmetric] Let_def
          split: if_splits)
    from next_exists pos parts
    have rest: "filter (non_custom h) (drop (Suc p) groups) \<noteq> []"
      by (auto simp: i_eq)
    have "nat (i + 1) = Suc (length (filter (non_custom h) (take p groups)))"
      by (simp add: i_eq pos)
    with parts rest
    have "ncg ! nat (i + 1) = hd (filter (non_custom h) (drop (Suc p) groups))"
      by (simp add: nth_append hd_conv_nth)
    with next_non_custom_hd [OF rest] obtain q where
      q: "next_non_custom h groups p = Some q" "ncg ! nat (i + 1) = groups ! q"
      by auto
    from next_non_custom_range [OF q(1)] have "groups ! q \<in> set groups" by simp
    with r(2) q(2) indexOf_first [of "groups ! q" groups] indexOf_nan [of groups]
    have "nextLevelGroup r =
        (if groups ! q = JPrim PNaN then - 1 else int (first_index groups (groups ! q)))"
      by simp
    with q(1) r(1) False groups c cur_nc cur_not_nan show ?thesis
      by (auto simp: p_def)
  qed
qed


lemma first_index_valid:
  assumes "x \<in> set groups" and "non_custom h x"
  shows "valid_group h groups (int (first_index groups x)) \<and>
         groups ! nat (int (first_index groups x)) = x"
  using first_index_mem [OF assms(1)] assms(2) by (simp add: valid_group_def)

text \<open>
  C10, amended. \<open>calculateNextLevel\<close> never throws. When it returns a result and
  \<open>currentLevel\<close> is a non-negative integer \<open>n\<close>, \<open>levelGroups\<close> is an array,
  \<open>currentLevelGroup\<close> is an index \<open>c\<close> of it, the group at \<open>c\<close> has a falsy \<open>isCustom\<close>,
  and one of two cases holds.

  Either \<open>nextLevel\<close> is the number \<open>currentLevel + 1\<close> (the integer \<open>n + 1\<close> when
  \<open>n < 2\<^sup>5\<^sup>3\<close>), it lies below the length of the current group's \<open>levels\<close>, and
  \<open>nextLevelGroup\<close> is the first index that holds the current group: a valid index of
  a group with a falsy \<open>isCustom\<close>, and \<open>c\<close> itself when no group is listed twice.

  Or \<open>nextLevel = 0\<close>, the number \<open>currentLevel + 1\<close> is not below the length of the
  current group's \<open>levels\<close>, and there is a next group, at the first index \<open>q\<close> after
  the first index of the current group (after \<open>c\<close>, when no group is listed twice) whose
  element has a falsy \<open>isCustom\<close>. When that element is \<open>NaN\<close>, \<open>nextLevelGroup\<close> is
  \<open>-1\<close>. Otherwise \<open>nextLevelGroup\<close> is the first index that holds that group: a valid
  index of a group with a falsy \<open>isCustom\<close>, and \<open>q\<close> itself when no group is listed
  twice. Nothing holds of the length of that group's \<open>levels\<close>.
\<close>

theorem calculateNextLevel_result:
  "(\<exists>res. calculateNextLevel h cl clg lg = Returned res) \<and>
   (\<forall>r n. calculateNextLevel h cl clg lg = Returned (Some r) \<and> cl = PInt n \<and> 0 \<le> n \<longrightarrow>
      (\<exists>groups c. as_array h lg = Some groups \<and> clg = PInt (int c) \<and> c < length groups \<and>
         non_custom h (groups ! c) \<and>
         ((nextLevel r = js_plus_one n \<and> (n < 2 ^ 53 \<longrightarrow> nextLevel r = n + 1) \<and>
           nextLevelGroup r = int (first_index groups (groups ! c)) \<and>
           (distinct groups \<longrightarrow> nextLevelGroup r = int c) \<and>
           valid_group h groups (nextLevelGroup r) \<and>
           groups ! nat (nextLevelGroup r) = groups ! c \<and>
           level_in_range h (groups ! nat (nextLevelGroup r)) (nextLevel r)) \<or>
          (nextLevel r = 0 \<and> \<not> level_in_range h (groups ! c) (js_plus_one n) \<and>
           (\<exists>q. next_non_custom h groups (first_index groups (groups ! c)) = Some q \<and>
                (distinct groups \<longrightarrow> next_non_custom h groups c = Some q) \<and>
                (groups ! q = JPrim PNaN \<longrightarrow> nextLevelGroup r = - 1) \<and>
                (groups ! q \<noteq> JPrim PNaN \<longrightarrow>
                   nextLevelGroup r = int (first_index groups (groups ! q)) \<and>
                   (distinct groups \<longrightarrow> nextLevelGroup r = int q) \<and>
                   valid_group h groups (nextLevelGroup r) \<and>
                   groups ! nat (nextLevelGroup r) = groups ! q))))))"
proof (intro conjI allI impI)
  show "\<exists>res. calculateNextLevel h cl clg lg = Returned res"
    by (rule calculateNextLevel_never_throws)
next
  fix r n
  assume "calculateNextLevel h cl clg lg = Returned (Some r) \<and> cl = PInt n \<and> 0 \<le> n"
  then have res: "calculateNextLevel h (PInt n) clg lg = Returned (Some r)" and n: "0 \<le> n"
    by auto
  from calculateNextLevel_shape [OF res n] obtain groups c where
    groups: "as_array h lg = Some groups" and c: "clg = PInt (int c)" "c < length groups"
    and nc: "non_custom h (groups ! c)"
    and branch: "(nextLevel r = js_plus_one n \<and>
       nextLevelGroup r = int (first_index groups (groups ! c)) \<and>
       level_in_range h (groups ! c) (nextLevel r)) \<or>
      (nextLevel r = 0 \<and> \<not> level_in_range h (groups ! c) (js_plus_one n) \<and>
       (\<exists>q. next_non_custom h groups (first_index groups (groups ! c)) = Some q \<and>
            nextLevelGroup r =
              (if groups ! q = JPrim PNaN then - 1
               else int (first_index groups (groups ! q)))))"
    by blast
  from c(2) have cur_in: "groups ! c \<in> set groups" by simp
  note cur = first_index_valid [OF cur_in nc]
  have same: "first_index groups (groups ! c) = c" if "distinct groups"
    using that c(2) by (rule first_index_distinct)
  from branch
  have "(nextLevel r = js_plus_one n \<and> (n < 2 ^ 53 \<longrightarrow> nextLevel r = n + 1) \<and>
       nextLevelGroup r = int (first_index groups (groups ! c)) \<and>
       (distinct groups \<longrightarrow> nextLevelGroup r = int c) \<and>
       valid_group h groups (nextLevelGroup r) \<and>
       groups ! nat (nextLevelGroup r) = groups ! c \<and>
       level_in_range h (groups ! nat (nextLevelGroup r)) (nextLevel r)) \<or>
      (nextLevel r = 0 \<and> \<not> level_in_range h (groups ! c) (js_plus_one n) \<and>
       (\<exists>q. next_non_custom h groups (first_index groups (groups ! c)) = Some q \<and>
            (distinct groups \<longrightarrow> next_non_custom h groups c = Some q) \<and>
            (groups ! q = JPrim PNaN \<longrightarrow> nextLevelGroup r = - 1) \<and>
            (groups ! q \<noteq> JPrim PNaN \<longrightarrow>
               nextLevelGroup r = int (first_index groups (groups ! q)) \<and>
               (distinct groups \<longrightarrow> nextLevelGroup r = int q) \<and>
               valid_group h groups (nextLevelGroup r) \<and>
               groups ! nat (nextLevelGroup r) = groups ! q)))"
  proof (elim disjE conjE exE)
    assume a: "nextLevel r = js_plus_one n"
      "nextLevelGroup r = int (first_index groups (groups ! c))"
      "level_in_range h (groups ! c) (nextLevel r)"
    from a(1) n have exact: "n < 2 ^ 53 \<longrightarrow> nextLevel r = n + 1"
      by (simp add: js_plus_one_exact)
    from a(2) same have "distinct groups \<longrightarrow> nextLevelGroup r = int c"
      by simp
    with a exact cur show ?thesis by simp
  next
    fix q
    assume b: "nextLevel r = 0" "\<not> level_in_range h (groups ! c) (js_plus_one n)"
      "next_non_custom h groups (first_index groups (groups ! c)) = Some q"
      "nextLevelGroup r =
         (if groups ! q = JPrim PNaN then - 1 else int (first_index groups (groups ! q)))"
    from next_non_custom_range [OF b(3)]
    have q: "q < length groups" "non_custom h (groups ! q)" by simp_all
    then have q_in: "groups ! q \<in> set groups" by simp
    note nxt = first_index_valid [OF q_in q(2)]
    have q_same: "first_index groups (groups ! q) = q" if "distinct groups"
      using that q(1) by (rule first_index_distinct)
    have "next_non_custom h groups (first_index groups (groups ! c)) = Some q \<and>
        (distinct groups \<longrightarrow> next_non_custom h groups c = Some q) \<and>
        (groups ! q = JPrim PNaN \<longrightarrow> nextLevelGroup r = - 1) \<and>
        (groups ! q \<noteq> JPrim PNaN \<longrightarrow>
           nextLevelGroup r = int (first_index groups (groups ! q)) \<and>
           (distinct groups \<longrightarrow> nextLevelGroup r = int q) \<and>
           valid_group h groups (nextLevelGroup r) \<and>
           groups ! nat (nextLevelGroup r) = groups ! q)"
      using b(3,4) same q_same nxt by auto
    with b(1,2) show ?thesis by blast
  qed
  with groups c nc
  show "\<exists>groups c. as_array h lg = Some groups \<and> clg = PInt (int c) \<and> c < length groups \<and>
         non_custom h (groups ! c) \<and>
         ((nextLevel r = js_plus_one n \<and> (n < 2 ^ 53 \<longrightarrow> nextLevel r = n + 1) \<and>
           nextLevelGroup r = int (first_index groups (groups ! c)) \<and>
           (distinct groups \<longrightarrow> nextLevelGroup r = int c) \<and>
           valid_group h groups (nextLevelGroup r) \<and>
           groups ! nat (nextLevelGroup r) = groups ! c \<and>
           level_in_range h (groups ! nat (nextLevelGroup r)) (nextLevel r)) \<or>
          (nextLevel r = 0 \<and> \<not> level_in_range h (groups ! c) (js_plus_one n) \<and>
           (\<exists>q. next_non_custom h groups (first_index groups (groups ! c)) = Some q \<and>
                (distinct groups \<longrightarrow> next_non_custom h groups c = Some q) \<and>
                (groups ! q = JPrim PNaN \<longrightarrow> nextLevelGroup r = - 1) \<and>
                (groups ! q \<noteq> JPrim PNaN \<longrightarrow>
                   nextLevelGroup r = int (first_index groups (groups ! q)) \<and>
                   (distinct groups \<longrightarrow> nextLevelGroup r = int q) \<and>
                   valid_group h groups (nextLevelGroup r) \<and>
                   groups ! nat (nextLevelGroup r) = groups ! q))))"
    by blast
qed


lemmas next_level_eval =
  calculateNextLevel_def calculateNextLevel_try_def indexOf_def next_in_group_def
  plus_one_def js_plus_one_def js_less_def

theorem calculateNextLevel_result_witness:
  "calculateNextLevel two_groups (PInt 0) (PInt 0) (JRef 0)
     = Returned (Some \<lparr>nextLevel = 1, nextLevelGroup = 0\<rparr>) \<and>
   valid_group two_groups [JRef 1, JRef 2] 0 \<and>
   level_in_range two_groups (JRef 1) 1 \<and>
   calculateNextLevel two_groups (PInt 1) (PInt 0) (JRef 0)
     = Returned (Some \<lparr>nextLevel = 0, nextLevelGroup = 1\<rparr>) \<and>
   next_non_custom two_groups [JRef 1, JRef 2] 0 = Some 1"
proof -
  have arr: "as_array two_groups (JRef 0) = Some [JRef 1, JRef 2]"
    by (simp add: two_groups_def)
  have res: "calculateNextLevel two_groups (PInt 0) (PInt 0) (JRef 0)
      = Returned (Some \<lparr>nextLevel = 1, nextLevelGroup = 0\<rparr>)"
    by (simp add: next_level_eval two_groups_def)
  have res': "calculateNextLevel two_groups (PInt 1) (PInt 0) (JRef 0)
      = Returned (Some \<lparr>nextLevel = 0, nextLevelGroup = 1\<rparr>)"
    by (simp add: next_level_eval two_groups_def)
  from calculateNextLevel_result [of two_groups "PInt 0" "PInt 0" "JRef 0"] res arr
  have same_group: "valid_group two_groups [JRef 1, JRef 2] 0 \<and>
      level_in_range two_groups ([JRef 1, JRef 2] ! nat 0) 1"
    by auto
  from calculateNextLevel_result [of two_groups "PInt 1" "PInt 0" "JRef 0"] res' arr
  obtain c q where "PInt 0 = PInt (int c)"
    "distinct [JRef 1, JRef 2 :: jsval] \<longrightarrow> next_non_custom two_groups [JRef 1, JRef 2] c = Some q"
    "[JRef 1, JRef 2] ! q \<noteq> JPrim PNaN \<longrightarrow> distinct [JRef 1, JRef 2 :: jsval] \<longrightarrow> 1 = int q"
    "q < 2"
    by (auto dest: next_non_custom_range)
  then have "next_non_custom two_groups [JRef 1, JRef 2] 0 = Some 1"
    by (cases q) (auto simp: less_Suc_eq numeral_2_eq_2)
  with res res' same_group show ?thesis by simp
qed

text \<open>
  C10 as stated fails when the next group has no levels: with
  \<open>levelGroups = [{levels: ["L0", "L1"]}, {isCustom: false, levels: []}]\<close>, the call
  \<open>calculateNextLevel(1, 0, levelGroups)\<close> returns \<open>nextLevel = 0\<close> in group 1, whose
  \<open>levels\<close> has length 0.
\<close>

theorem calculateNextLevel_empty_group_counterexample:
  "calculateNextLevel two_groups (PInt 1) (PInt 0) (JRef 0)
     = Returned (Some \<lparr>nextLevel = 0, nextLevelGroup = 1\<rparr>) \<and>
   as_array two_groups (JRef 0) = Some [JRef 1, JRef 2] \<and>
   valid_group two_groups [JRef 1, JRef 2] 1 \<and>
   levels_length two_groups ([JRef 1, JRef 2] ! 1) = Some 0 \<and>
   \<not> level_in_range two_groups ([JRef 1, JRef 2] ! 1) 0"
  by (simp add: next_level_eval two_groups_def valid_group_def non_custom_def levels_length_def
      level_in_range_def)

text \<open>
  It also fails when the element after the current group is \<open>NaN\<close>, which passes the
  filter and which \<open>indexOf\<close> never finds: with \<open>levelGroups = [{levels: ["L0"]}, NaN]\<close>,
  the call \<open>calculateNextLevel(0, 0, levelGroups)\<close> returns \<open>nextLevelGroup = -1\<close>, which
  is no index of \<open>levelGroups\<close>.
\<close>

theorem calculateNextLevel_nan_group_counterexample:
  "calculateNextLevel nan_group (PInt 0) (PInt 0) (JRef 0)
     = Returned (Some \<lparr>nextLevel = 0, nextLevelGroup = - 1\<rparr>) \<and>
   as_array nan_group (JRef 0) = Some [JRef 1, JPrim PNaN] \<and>
   \<not> valid_group nan_group [JRef 1, JPrim PNaN] (- 1)"
  by (simp add: next_level_eval nan_group_def valid_group_def)

text \<open>
  When one group object is listed twice, the result names the first index that holds
  the group, not the index after the current one: with \<open>levelGroups = [a, a, b]\<close>, the
  call \<open>calculateNextLevel(0, 1, levelGroups)\<close> on the last level of the group at index 1
  returns level 0 of group 0, which is that same group, and never reaches \<open>b\<close>.
\<close>

lemma calculateNextLevel_repeated_group:
  "calculateNextLevel repeated_group (PInt 0) (PInt 1) (JRef 0)
     = Returned (Some \<lparr>nextLevel = 0, nextLevelGroup = 0\<rparr>) \<and>
   as_array repeated_group (JRef 0) = Some [JRef 1, JRef 1, JRef 2] \<and>
   next_non_custom repeated_group [JRef 1, JRef 1, JRef 2] 1 = Some 2"
  by (simp add: next_level_eval repeated_group_def next_non_custom_def non_custom_def
      upt_conv_Cons)

text \<open>
  Beyond \<open>2\<^sup>5\<^sup>3\<close> the sum \<open>currentLevel + 1\<close> is not the integer successor: \<open>2\<^sup>5\<^sup>3 + 1\<close>
  is \<open>2\<^sup>5\<^sup>3\<close>, and \<open>-(2\<^sup>5\<^sup>3 + 2) + 1\<close> is \<open>-2\<^sup>5\<^sup>3\<close>.
\<close>

lemma js_plus_one_rounds:
  "js_plus_one (2 ^ 53) = 2 ^ 53 \<and> js_plus_one (- (2 ^ 53 + 2)) = - (2 ^ 53)"
  by (simp add: js_plus_one_def)

end
